theory Spec2Isabelle
  imports Complex_Main "HOL-Library.Word" "HOL-Library.Sublist"
begin

section \<open>Errors and arrays\<close>

text \<open>
  The module \<open>keras_ocr/detection.py\<close> works on numpy arrays and calls OpenCV. Arrays
  are lists of rows; float32 and float64 values are real numbers, with the rounding a
  parameter of the model where the result depends on it (the normalisation and the
  Gaussian kernel), and uint8 values are 8-bit words.
  Every exception the Python can raise is a value of \<open>py_error\<close>.
\<close>

datatype py_error =
    AssertionError string  \<comment> \<open>a failed \<open>assert\<close>, with its message\<close>
  | IndexError
  | ValueError
  | ZeroDivisionError
  | Cv2Error  \<comment> \<open>\<open>cv2.error\<close>, raised inside an OpenCV function\<close>

definition bind_e :: "'e + 'a \<Rightarrow> ('a \<Rightarrow> 'e + 'b) \<Rightarrow> 'e + 'b" where
  \<comment> \<open>run \<open>f\<close> on the value of \<open>m\<close> unless \<open>m\<close> raised\<close>
  "bind_e m f = (case m of Inl e \<Rightarrow> Inl e | Inr a \<Rightarrow> f a)"

type_synonym plane = "real list list"

definition nrows :: "'a list list \<Rightarrow> nat" where
  "nrows a = length a"

definition ncols :: "'a list list \<Rightarrow> nat" where
  "ncols a = (case a of [] \<Rightarrow> 0 | r # _ \<Rightarrow> length r)"

section \<open>Binarisation in getBoxes\<close>

text \<open>
  \<open>cv2.threshold(src, thresh, maxval, cv2.THRESH_BINARY)\<close>: OpenCV documents the
  binary threshold as \<open>dst(x,y) = maxval if src(x,y) > thresh else 0\<close>.
\<close>

definition threshold_binary_px :: "real \<Rightarrow> real \<Rightarrow> real \<Rightarrow> real" where
  "threshold_binary_px thresh maxval v = (if v > thresh then maxval else 0)"

definition cv2_threshold_binary :: "plane \<Rightarrow> real \<Rightarrow> real \<Rightarrow> plane" where
  "cv2_threshold_binary src thresh maxval = map (map (threshold_binary_px thresh maxval)) src"

text \<open>The two calls of getBoxes (lines 176 to 183), both with \<open>maxval=1\<close>.\<close>

definition text_score_of :: "plane \<Rightarrow> real \<Rightarrow> plane" where
  "text_score_of textmap text_threshold = cv2_threshold_binary textmap text_threshold 1"

definition link_score_of :: "plane \<Rightarrow> real \<Rightarrow> plane" where
  "link_score_of linkmap link_threshold = cv2_threshold_binary linkmap link_threshold 1"

section \<open>Normalisation: compute\_input and invert\_input\<close>

text \<open>
  An RGB image is a list of rows of pixels with three channels. The constants are the
  arrays \<open>mean\<close> and \<open>variance\<close> of the source. numpy evaluates
  \<open>mean * 255\<close> in float64 and an in-place operation of a float32 array with a float64
  array in float64, storing the result as float32: \<open>f64\<close> and \<open>f32\<close> are the two
  roundings, parameters of the model.
\<close>

type_synonym 'a rgb = "'a \<times> 'a \<times> 'a"
type_synonym 'a image = "'a rgb list list"

definition mean :: "real rgb" where
  "mean = (485/1000, 456/1000, 406/1000)"

definition variance :: "real rgb" where
  "variance = (229/1000, 224/1000, 225/1000)"

definition map_rgb :: "('a \<Rightarrow> 'b) \<Rightarrow> 'a rgb \<Rightarrow> 'b rgb" where
  "map_rgb f p = (case p of (r, g, b) \<Rightarrow> (f r, f g, f b))"

definition zip_rgb :: "('a \<Rightarrow> 'b \<Rightarrow> 'c) \<Rightarrow> 'a rgb \<Rightarrow> 'b rgb \<Rightarrow> 'c rgb" where
  "zip_rgb f p q = (case p of (r, g, b) \<Rightarrow> case q of (r', g', b') \<Rightarrow> (f r r', f g g', f b b'))"

definition times255 :: "(real \<Rightarrow> real) \<Rightarrow> real rgb \<Rightarrow> real rgb" where
  \<comment> \<open>\<open>np.array([...]) * 255\<close>, in float64\<close>
  "times255 f64 v = map_rgb (\<lambda>c. f64 (f64 c * 255)) v"

definition uint8_value :: "8 word \<Rightarrow> real" where
  "uint8_value p = real_of_int (uint p)"

definition astype_float32 :: "8 word image \<Rightarrow> real image" where
  \<comment> \<open>\<open>image.astype('float32')\<close>: every uint8 value is a float32 value\<close>
  "astype_float32 img = map (map (map_rgb uint8_value)) img"

definition isub :: "(real \<Rightarrow> real) \<Rightarrow> (real \<Rightarrow> real) \<Rightarrow> real image \<Rightarrow> real rgb \<Rightarrow> real image" where
  \<comment> \<open>\<open>image -= v\<close>, \<open>v\<close> broadcast over the channel axis\<close>
  "isub f64 f32 img v = map (map (\<lambda>p. zip_rgb (\<lambda>x c. f32 (f64 (x - c))) p v)) img"

definition idiv :: "(real \<Rightarrow> real) \<Rightarrow> (real \<Rightarrow> real) \<Rightarrow> real image \<Rightarrow> real rgb \<Rightarrow> real image" where
  "idiv f64 f32 img v = map (map (\<lambda>p. zip_rgb (\<lambda>x c. f32 (f64 (x / c))) p v)) img"

definition imul :: "(real \<Rightarrow> real) \<Rightarrow> (real \<Rightarrow> real) \<Rightarrow> real image \<Rightarrow> real rgb \<Rightarrow> real image" where
  "imul f64 f32 img v = map (map (\<lambda>p. zip_rgb (\<lambda>x c. f32 (f64 (x * c))) p v)) img"

definition iadd :: "(real \<Rightarrow> real) \<Rightarrow> (real \<Rightarrow> real) \<Rightarrow> real image \<Rightarrow> real rgb \<Rightarrow> real image" where
  "iadd f64 f32 img v = map (map (\<lambda>p. zip_rgb (\<lambda>x c. f32 (f64 (x + c))) p v)) img"

definition clip :: "real \<Rightarrow> real \<Rightarrow> real \<Rightarrow> real" where
  \<comment> \<open>\<open>np.clip\<close> on one element\<close>
  "clip lo hi x = min (max x lo) hi"

definition trunc :: "real \<Rightarrow> int" where
  \<comment> \<open>the C conversion of a float to an integer drops the fraction\<close>
  "trunc x = (if 0 \<le> x then \<lfloor>x\<rfloor> else \<lceil>x\<rceil>)"

definition astype_uint8 :: "real \<Rightarrow> 8 word" where
  "astype_uint8 x = word_of_int (trunc x)"

definition compute_input :: "(real \<Rightarrow> real) \<Rightarrow> (real \<Rightarrow> real) \<Rightarrow> 8 word image \<Rightarrow> real image" where
  "compute_input f64 f32 img =
     (let img = astype_float32 img;
          img = isub f64 f32 img (times255 f64 mean);
          img = idiv f64 f32 img (times255 f64 variance)
      in img)"

definition invert_input :: "(real \<Rightarrow> real) \<Rightarrow> (real \<Rightarrow> real) \<Rightarrow> real image \<Rightarrow> 8 word image" where
  "invert_input f64 f32 X =
     (let X = imul f64 f32 X (times255 f64 variance);
          X = iadd f64 f32 X (times255 f64 mean)
      in map (map (map_rgb (\<lambda>x. astype_uint8 (clip 0 255 x)))) X)"

text \<open>
  A rounding \<open>f\<close> is within \<open>e\<close> when it moves no number of magnitude at most 1024 by more
  than \<open>e\<close>. Rounding to float32 is within \<open>2^-14\<close> there, rounding to float64 within
  \<open>2^-43\<close>.
\<close>

definition rounds_within :: "real \<Rightarrow> (real \<Rightarrow> real) \<Rightarrow> bool" where
  "rounds_within e f = (\<forall>x. \<bar>x\<bar> \<le> 1024 \<longrightarrow> \<bar>f x - x\<bar> \<le> e)"

text \<open>An example of a coarse rounding: down to the next multiple of \<open>1/256\<close>.\<close>

definition round256 :: "real \<Rightarrow> real" where
  "round256 x = real_of_int \<lfloor>x * 256\<rfloor> / 256"

definition close_px :: "8 word \<Rightarrow> 8 word \<Rightarrow> bool" where
  "close_px p q = (\<bar>uint p - uint q\<bar> \<le> 1)"

definition close_rgb :: "8 word rgb \<Rightarrow> 8 word rgb \<Rightarrow> bool" where
  "close_rgb p q = (case p of (r, g, b) \<Rightarrow> case q of (r', g', b') \<Rightarrow>
      close_px r r' \<and> close_px g g' \<and> close_px b b')"

section \<open>The Gaussian kernel: get\_gaussian\_heatmap\<close>

text \<open>
  The kernel is computed in float64. The model takes the rounding of float64 (\<open>rnd\<close>,
  applied to the exact result of every arithmetic operation and of \<open>np.sqrt\<close>) and the
  exponential function of the library (\<open>fexp\<close>) as parameters.
\<close>

definition linspace :: "(real \<Rightarrow> real) \<Rightarrow> real \<Rightarrow> real \<Rightarrow> nat \<Rightarrow> real list" where
  \<comment> \<open>\<open>np.linspace(start, stop, num)\<close> as numpy computes it:
      \<open>delta = stop - start; y = arange(0, num) * (delta / div) + start\<close> with
      \<open>div = num - 1\<close> (\<open>y = arange(0, num) / div * delta + start\<close> when the step is 0,
      \<open>y = arange(0, num) * delta + start\<close> when \<open>div\<close> is 0), and \<open>y[-1] = stop\<close> when
      \<open>num > 1\<close>\<close>
  "linspace rnd start stop num =
     (let dv = num - 1;
          delta = rnd (stop - start);
          y = map real [0..<num];
          y = (if 0 < dv
               then let step = rnd (delta / real dv)
                    in if step = 0 then map (\<lambda>a. rnd (rnd (a / real dv) * delta)) y
                       else map (\<lambda>a. rnd (a * step)) y
               else map (\<lambda>a. rnd (a * delta)) y);
          y = map (\<lambda>a. rnd (a + start)) y
      in if 1 < num then y[num - 1 := stop] else y)"

definition meshgrid :: "'a list \<Rightarrow> 'a list \<Rightarrow> 'a list list \<times> 'a list list" where
  \<comment> \<open>\<open>np.meshgrid(a, b)\<close>: the first grid repeats \<open>a\<close> along the rows, the second one
      repeats each element of \<open>b\<close> along its row\<close>
  "meshgrid a b = (map (\<lambda>_. a) b, map (\<lambda>y. map (\<lambda>_. y) a) b)"

definition map_plane :: "('a \<Rightarrow> 'b) \<Rightarrow> 'a list list \<Rightarrow> 'b list list" where
  "map_plane f a = map (map f) a"

definition zip_plane :: "('a \<Rightarrow> 'b \<Rightarrow> 'c) \<Rightarrow> 'a list list \<Rightarrow> 'b list list \<Rightarrow> 'c list list" where
  "zip_plane f a b = map2 (map2 f) a b"

definition get_gaussian_heatmap ::
  "(real \<Rightarrow> real) \<Rightarrow> (real \<Rightarrow> real) \<Rightarrow> int \<Rightarrow> real \<Rightarrow> py_error + 8 word list list" where
  "get_gaussian_heatmap rnd fexp size' distanceRatio =
     (if size' < 0 then Inl ValueError
      else
        let v = map abs (linspace rnd (rnd (- real_of_int size' / 2)) (rnd (real_of_int size' / 2))
                           (nat size'));
            (x, y) = meshgrid v v;
            g = map_plane (\<lambda>a. rnd (sqrt a))
                  (zip_plane (\<lambda>a b. rnd (a + b)) (map_plane (\<lambda>a. rnd (a\<^sup>2)) x)
                     (map_plane (\<lambda>a. rnd (a\<^sup>2)) y))
        in if rnd (real_of_int size' / 2) = 0 then Inl ZeroDivisionError
           else
             let c = rnd (distanceRatio / rnd (real_of_int size' / 2));
                 g = map_plane (\<lambda>a. rnd (a * c)) g;
                 g = map_plane (\<lambda>a. fexp (rnd (- (1 / 2) * rnd (a\<^sup>2)))) g;
                 g = map_plane (\<lambda>a. rnd (a * 255)) g
             in Inr (map_plane (\<lambda>a. astype_uint8 (clip 0 255 a)) g))"

text \<open>
  What is assumed of the two parameters: on numbers of magnitude at most \<open>2^21\<close> the
  rounding is within \<open>e\<close>, it keeps a number that is not negative so, and the library's
  exponential is within \<open>e\<close> of the exponential on \<open>[-2^21, 1]\<close>. Rounding to float64
  is within \<open>2^-32\<close> there, and the exponential of the C library far closer.
\<close>

definition float64_like :: "real \<Rightarrow> (real \<Rightarrow> real) \<Rightarrow> (real \<Rightarrow> real) \<Rightarrow> bool" where
  "float64_like e rnd fexp =
     ((\<forall>x. \<bar>x\<bar> \<le> 2 ^ 21 \<longrightarrow> \<bar>rnd x - x\<bar> \<le> e) \<and>
      (\<forall>x. 0 \<le> x \<longrightarrow> 0 \<le> rnd x) \<and>
      (\<forall>x. - (2 ^ 21) \<le> x \<and> x \<le> 1 \<longrightarrow> \<bar>fexp x - exp x\<bar> \<le> e))"

text \<open>
  An example of such a pair: rounding to the nearest multiple of \<open>2^-40\<close>, and the
  exponential rounded so.
\<close>

definition fixed40 :: "real \<Rightarrow> real" where
  "fixed40 x = real_of_int (round (x * 2 ^ 40)) / 2 ^ 40"

definition exp40 :: "real \<Rightarrow> real" where
  "exp40 x = fixed40 (exp x)"

definition kernel_px :: "(real \<Rightarrow> real) \<Rightarrow> (real \<Rightarrow> real) \<Rightarrow> real \<Rightarrow> real \<Rightarrow> real \<Rightarrow> real" where
  \<comment> \<open>the float64 value of a pixel before the conversion to uint8, from its two
      coordinates and the scale \<open>c\<close>\<close>
  "kernel_px rnd fexp c x y =
     rnd (fexp (rnd (- (1 / 2) * rnd ((rnd (rnd (sqrt (rnd (rnd (x\<^sup>2) + rnd (y\<^sup>2)))) * c))\<^sup>2))) * 255)"

definition kernel_value :: "(real \<Rightarrow> real) \<Rightarrow> (real \<Rightarrow> real) \<Rightarrow> nat \<Rightarrow> real \<Rightarrow> nat \<Rightarrow> nat \<Rightarrow> real" where
  \<comment> \<open>the float64 value of pixel \<open>(i, j)\<close> of the kernel of size \<open>n\<close>\<close>
  "kernel_value rnd fexp n r i j =
     (let v = map abs (linspace rnd (rnd (- real n / 2)) (rnd (real n / 2)) n)
      in kernel_px rnd fexp (rnd (r / rnd (real n / 2))) (v ! j) (v ! i))"

text \<open>
  The kernel as the specification words it: pixel \<open>(i, j)\<close> of a \<open>size\<close> by \<open>size\<close> grid
  of integer coordinates centred at the origin has the coordinates \<open>i - size div 2\<close> and
  \<open>j - size div 2\<close>; \<open>d\<close> is its distance from the centre scaled by
  \<open>distanceRatio / (size / 2)\<close>, and its intensity is \<open>255 * exp (- d\<^sup>2 / 2)\<close> rounded to
  the nearest integer and clipped to \<open>[0, 255]\<close>.
\<close>

definition spec_distance :: "nat \<Rightarrow> real \<Rightarrow> nat \<Rightarrow> nat \<Rightarrow> real" where
  "spec_distance size' distanceRatio i j =
     sqrt ((real_of_int (int i - int size' div 2))\<^sup>2 + (real_of_int (int j - int size' div 2))\<^sup>2)
       * (distanceRatio / (real size' / 2))"

definition spec_intensity :: "real \<Rightarrow> int" where
  "spec_intensity d = max 0 (min 255 (round (255 * exp (- (1 / 2) * d\<^sup>2))))"

definition makeGaussianKernel_spec :: "nat \<Rightarrow> real \<Rightarrow> 8 word list list" where
  "makeGaussianKernel_spec size' distanceRatio =
     map (\<lambda>i. map (\<lambda>j. word_of_int (spec_intensity (spec_distance size' distanceRatio i j)))
                 [0..<size']) [0..<size']"

text \<open>
  The exact numbers that the source computes in float64: the coordinate of sample \<open>k\<close>,
  the \<open>k\<close>-th of \<open>size\<close> evenly spaced values from \<open>- size / 2\<close> to \<open>size / 2\<close>, the
  scaled distance of pixel \<open>(i, j)\<close> from the centre, and the intensity there.
\<close>

definition sample_coord :: "nat \<Rightarrow> nat \<Rightarrow> real" where
  "sample_coord size' k =
     (if size' = 1 then - 1 / 2 else - real size' / 2 + real k * (real size' / real (size' - 1)))"

definition scaled_distance :: "nat \<Rightarrow> real \<Rightarrow> nat \<Rightarrow> nat \<Rightarrow> real" where
  "scaled_distance size' distanceRatio i j =
     sqrt ((sample_coord size' j)\<^sup>2 + (sample_coord size' i)\<^sup>2) * (distanceRatio / (real size' / 2))"

definition gauss_px :: "nat \<Rightarrow> real \<Rightarrow> nat \<Rightarrow> nat \<Rightarrow> real" where
  \<comment> \<open>the exact value of pixel \<open>(i, j)\<close> before the conversion to uint8\<close>
  "gauss_px n r i j = 255 * exp (- (1 / 2) * (scaled_distance n r i j)\<^sup>2)"

section \<open>Target synthesis: compute\_maps\<close>

text \<open>
  An entry of a line is the tuple \<open>(x1, y1, x2, y2, x3, y3, x4, y4, c)\<close> that the loop
  unpacks. The two OpenCV functions are parameters: \<open>getPerspectiveTransform src dst\<close>
  gives a matrix, and \<open>warpPerspective heatmap M (width, height)\<close> gives an image or
  raises \<open>cv2.error\<close> (\<open>None\<close>).
\<close>

type_synonym point = "real \<times> real"
type_synonym char_box = "real \<times> real \<times> real \<times> real \<times> real \<times> real \<times> real \<times> real \<times> string"
type_synonym matrix = "real list list"

record cv2_warp =
  getPerspectiveTransform :: "point list \<Rightarrow> point list \<Rightarrow> matrix"
  warpPerspective :: "8 word list list \<Rightarrow> matrix \<Rightarrow> nat \<times> nat \<Rightarrow> 8 word list list option"

definition zeros :: "nat \<Rightarrow> nat \<Rightarrow> plane" where
  "zeros h w = replicate h (replicate w 0)"

definition broadcastable :: "'a list list \<Rightarrow> nat \<Rightarrow> nat \<Rightarrow> bool" where
  \<comment> \<open>numpy: an axis of the operand matches the target's, or has length 1\<close>
  "broadcastable b h w = ((nrows b = h \<or> nrows b = 1) \<and> (ncols b = w \<or> ncols b = 1))"

definition broadcast_at :: "'a list list \<Rightarrow> nat \<Rightarrow> nat \<Rightarrow> 'a" where
  \<comment> \<open>the element of the operand that position \<open>(r, k)\<close> of the target reads\<close>
  "broadcast_at b r k = b ! (if nrows b = 1 then 0 else r) ! (if ncols b = 1 then 0 else k)"

definition iadd_plane :: "nat \<Rightarrow> nat \<Rightarrow> plane \<Rightarrow> plane \<Rightarrow> py_error + plane" where
  \<comment> \<open>\<open>a += b\<close> for \<open>a\<close> of shape \<open>(h, w)\<close>: numpy broadcasts \<open>b\<close> to the shape of
      \<open>a\<close> or raises ValueError\<close>
  "iadd_plane h w a b =
     (if broadcastable b h w
      then Inr (map (\<lambda>r. map (\<lambda>k. a ! r ! k + broadcast_at b r k) [0..<w]) [0..<h])
      else Inl ValueError)"

definition current_link_points_of :: "char_box \<Rightarrow> point \<times> point" where
  "current_link_points_of q = (case q of (x1, y1, x2, y2, x3, y3, x4, y4, c) \<Rightarrow>
     let yc = (y4 + y1 + y3 + y2) / 4;
         xc = (x1 + x2 + x3 + x4) / 4
     in (((xc + (x1 + x2) / 2) / 2 / 2, (yc + (y1 + y2) / 2) / 2 / 2),
         ((xc + (x3 + x4) / 2) / 2 / 2, (yc + (y3 + y4) / 2) / 2 / 2)))"

definition character_points_of :: "char_box \<Rightarrow> point list" where
  "character_points_of q = (case q of (x1, y1, x2, y2, x3, y3, x4, y4, c) \<Rightarrow>
     [(x1 / 2, y1 / 2), (x2 / 2, y2 / 2), (x3 / 2, y3 / 2), (x4 / 2, y4 / 2)])"

definition warp_into ::
  "cv2_warp \<Rightarrow> 8 word list list \<Rightarrow> point list \<Rightarrow> nat \<times> nat \<Rightarrow> point list \<Rightarrow> plane
   \<Rightarrow> py_error + plane" where
  \<comment> \<open>\<open>m += cv2.warpPerspective(heatmap, cv2.getPerspectiveTransform(src, dst),
      dsize=(m.shape[1], m.shape[0])).astype('float32')\<close>, for \<open>m\<close> of shape \<open>(h, w)\<close>\<close>
  "warp_into cv heatmap src shape dst m = (case shape of (h, w) \<Rightarrow>
     (case warpPerspective cv heatmap (getPerspectiveTransform cv src dst) (w, h) of
        None \<Rightarrow> Inl Cv2Error
      | Some warped \<Rightarrow> iadd_plane h w m (map_plane uint8_value warped)))"

text \<open>
  The state of the two loops: the maps and \<open>previous_link_points\<close>. One step is the body
  of the inner loop.
\<close>

type_synonym maps_state = "plane \<times> plane \<times> (point \<times> point) option"

definition char_step ::
  "cv2_warp \<Rightarrow> 8 word list list \<Rightarrow> point list \<Rightarrow> nat \<times> nat \<Rightarrow> maps_state \<Rightarrow> char_box
   \<Rightarrow> py_error + maps_state" where
  "char_step cv heatmap src shape st q =
     (case st of (textmap, linkmap, previous_link_points) \<Rightarrow>
      case q of (x1, y1, x2, y2, x3, y3, x4, y4, c) \<Rightarrow>
        if c = '' '' then Inr (textmap, linkmap, None)
        else
          let current_link_points = current_link_points_of q;
              character_points = character_points_of q
          in bind_e
               (case previous_link_points of
                  None \<Rightarrow> Inr linkmap
                | Some prev \<Rightarrow>
                    warp_into cv heatmap src shape
                      [fst prev, fst current_link_points, snd current_link_points, snd prev]
                      linkmap)
               (\<lambda>linkmap.
                  bind_e (warp_into cv heatmap src shape character_points textmap)
                    (\<lambda>textmap. Inr (textmap, linkmap, Some current_link_points))))"

fun line_loop ::
  "cv2_warp \<Rightarrow> 8 word list list \<Rightarrow> point list \<Rightarrow> nat \<times> nat \<Rightarrow> maps_state \<Rightarrow> char_box list
   \<Rightarrow> py_error + maps_state" where
  "line_loop cv heatmap src shape st [] = Inr st"
| "line_loop cv heatmap src shape st (q # line) =
     bind_e (char_step cv heatmap src shape st q)
       (\<lambda>st. line_loop cv heatmap src shape st line)"

fun lines_loop ::
  "cv2_warp \<Rightarrow> 8 word list list \<Rightarrow> point list \<Rightarrow> nat \<times> nat \<Rightarrow> plane \<times> plane
   \<Rightarrow> char_box list list \<Rightarrow> py_error + plane \<times> plane" where
  "lines_loop cv heatmap src shape maps [] = Inr maps"
| "lines_loop cv heatmap src shape maps (line # lines) =
     bind_e (line_loop cv heatmap src shape (fst maps, snd maps, None) line)
       (\<lambda>st. lines_loop cv heatmap src shape (fst st, fst (snd st)) lines)"

definition compute_maps ::
  "cv2_warp \<Rightarrow> 8 word list list \<Rightarrow> int \<Rightarrow> int \<Rightarrow> char_box list list
   \<Rightarrow> py_error + (real \<times> real) list list" where
  "compute_maps cv heatmap image_height image_width lines =
     (if image_height mod 2 \<noteq> 0 then Inl (AssertionError ''Height must be an even number'')
      else if image_width mod 2 \<noteq> 0 then Inl (AssertionError ''Width must be an even number'')
      else if image_height div 2 < 0 \<or> image_width div 2 < 0 then Inl ValueError
      else
        let h = nat (image_height div 2);
            w = nat (image_width div 2);
            textmap = zeros h w;
            linkmap = zeros h w;
            src = [(0, 0), (real (ncols heatmap), 0),
                   (real (ncols heatmap), real (nrows heatmap)), (0, real (nrows heatmap))]
        in bind_e (lines_loop cv heatmap src (h, w) (textmap, linkmap) lines)
             (\<lambda>maps. Inr (map_plane (\<lambda>(t, l). (clip 0 255 t / 255, clip 0 255 l / 255))
                             (zip_plane Pair (fst maps) (snd maps)))))"

text \<open>
  Two inputs agree up to the labels when they have the same lines of the same lengths, the
  same coordinates in every entry, and the space label in the same entries.
\<close>

definition same_box :: "char_box \<Rightarrow> char_box \<Rightarrow> bool" where
  "same_box q q' =
     (case q of (x1, y1, x2, y2, x3, y3, x4, y4, c) \<Rightarrow>
      case q' of (x1', y1', x2', y2', x3', y3', x4', y4', c') \<Rightarrow>
        x1 = x1' \<and> y1 = y1' \<and> x2 = x2' \<and> y2 = y2' \<and> x3 = x3' \<and> y3 = y3' \<and>
        x4 = x4' \<and> y4 = y4' \<and> ((c = '' '') = (c' = '' '')))"

definition in_unit_interval :: "real \<Rightarrow> bool" where
  "in_unit_interval v = (0 \<le> v \<and> v \<le> 1)"

text \<open>
  What OpenCV promises of \<open>warpPerspective\<close> for a destination size of positive area: it
  returns an image of that size.
\<close>

definition has_shape :: "'a list list \<Rightarrow> nat \<Rightarrow> nat \<Rightarrow> bool" where
  "has_shape a h w = (length a = h \<and> (\<forall>row \<in> set a. length row = w))"

definition warp_contract :: "cv2_warp \<Rightarrow> bool" where
  "warp_contract cv = (\<forall>heatmap M w h. 0 < w \<and> 0 < h \<longrightarrow>
     (\<exists>img. warpPerspective cv heatmap M (w, h) = Some img \<and> has_shape img h w))"

text \<open>The errors that the loops of \<open>compute_maps\<close> can raise.\<close>

definition lib_error :: "py_error \<Rightarrow> bool" where
  "lib_error e = (e = Cv2Error \<or> e = ValueError)"

text \<open>A stand-in for OpenCV in examples: the warp paints every pixel with one value.\<close>

definition cv_flat :: "8 word \<Rightarrow> cv2_warp" where
  "cv_flat v =
     \<lparr>getPerspectiveTransform = (\<lambda>src dst. []),
      warpPerspective = (\<lambda>heatmap M dsize. Some (replicate (snd dsize) (replicate (fst dsize) v)))\<rparr>"

section \<open>Box extraction: getBoxes\<close>

text \<open>
  The OpenCV functions of \<open>getBoxes\<close> other than \<open>cv2.threshold\<close> are parameters:
  \<^item> \<open>connectedComponentsWithStats mask\<close> (connectivity 4) gives the number of labels, the
    label of every pixel and one row \<open>(left, top, width, height, area)\<close> per label;
  \<^item> \<open>dilate src k\<close> dilates with the \<open>k\<close> by \<open>k\<close> rectangle of
    \<open>getStructuringElement(MORPH_RECT, (k, k))\<close>;
  \<^item> \<open>findContours\<close> gives the list of contours, each a list of integer points \<open>(x, y)\<close>;
  \<^item> \<open>minAreaRect\<close> gives a rotated rectangle \<open>(centre, (width, height), angle)\<close>;
  \<^item> \<open>boxPoints\<close> gives its four corners.
  Sizes and coordinates are unbounded numbers.
\<close>

type_synonym contour = "(int \<times> int) list"
type_synonym rotated_rect = "point \<times> (real \<times> real) \<times> real"
type_synonym stat = "nat \<times> nat \<times> nat \<times> nat \<times> nat"
type_synonym box = "point list"

record cv2_ops =
  connectedComponentsWithStats :: "8 word list list \<Rightarrow> nat \<times> nat list list \<times> stat list"
  dilate :: "plane \<Rightarrow> nat \<Rightarrow> plane"
  findContours :: "8 word list list \<Rightarrow> contour list"
  minAreaRect :: "contour \<Rightarrow> rotated_rect"
  boxPoints :: "rotated_rect \<Rightarrow> point \<times> point \<times> point \<times> point"

definition same_shape :: "'a list list \<Rightarrow> 'b list list \<Rightarrow> bool" where
  "same_shape a b = (map length a = map length b)"

definition masked_values :: "plane \<Rightarrow> nat list list \<Rightarrow> nat \<Rightarrow> real list" where
  \<comment> \<open>\<open>textmap[labels == component_id]\<close>\<close>
  "masked_values textmap labels component_id =
     concat (map2 (\<lambda>trow lrow. map fst (filter (\<lambda>(t, l). l = component_id) (zip trow lrow)))
               textmap labels)"

definition union_mask :: "plane \<Rightarrow> plane \<Rightarrow> 8 word list list" where
  \<comment> \<open>\<open>np.clip(text_score + link_score, 0, 1).astype('uint8')\<close>\<close>
  "union_mask text_score link_score =
     map_plane astype_uint8 (map_plane (clip 0 1) (zip_plane (+) text_score link_score))"

definition mark_component :: "plane \<Rightarrow> nat list list \<Rightarrow> nat \<Rightarrow> plane" where
  \<comment> \<open>\<open>segmap[labels == component_id] = 255\<close>\<close>
  "mark_component segmap labels component_id =
     zip_plane (\<lambda>s l. if l = component_id then 255 else s) segmap labels"

definition carve_links :: "plane \<Rightarrow> plane \<Rightarrow> plane \<Rightarrow> plane" where
  \<comment> \<open>\<open>segmap[np.logical_and(link_score, text_score)] = 0\<close>\<close>
  "carve_links segmap link_score text_score =
     zip_plane (\<lambda>s both. if both then 0 else s) segmap
       (zip_plane (\<lambda>l t. l \<noteq> 0 \<and> t \<noteq> 0) link_score text_score)"

definition carve :: "plane \<Rightarrow> nat list list \<Rightarrow> nat \<Rightarrow> plane \<Rightarrow> plane \<Rightarrow> plane" where
  \<comment> \<open>lines 201 to 203: the segmentation map of a component\<close>
  "carve textmap labels component_id link_score text_score =
     (let segmap = map_plane (\<lambda>_. 0) textmap;
          segmap = mark_component segmap labels component_id;
          segmap = carve_links segmap link_score text_score
      in segmap)"

definition slice2 :: "'a list list \<Rightarrow> nat \<Rightarrow> nat \<Rightarrow> nat \<Rightarrow> nat \<Rightarrow> 'a list list" where
  \<comment> \<open>\<open>a[sy:ey, sx:ex]\<close> for indices that are not negative\<close>
  "slice2 a sy ey sx ex = map (\<lambda>row. take (ex - sx) (drop sx row)) (take (ey - sy) (drop sy a))"

definition assign_slice ::
  "plane \<Rightarrow> nat \<Rightarrow> nat \<Rightarrow> nat \<Rightarrow> nat \<Rightarrow> plane \<Rightarrow> py_error + plane" where
  \<comment> \<open>\<open>a[sy:ey, sx:ex] = d\<close>: \<open>d\<close> is broadcast to the shape of the slice\<close>
  "assign_slice a sy ey sx ex d =
     (let hs = min ey (nrows a) - sy;
          ws = min ex (ncols a) - sx
      in if broadcastable d hs ws
         then Inr (map (\<lambda>r. map (\<lambda>k. if sy \<le> r \<and> r < sy + hs \<and> sx \<le> k \<and> k < sx + ws
                                       then broadcast_at d (r - sy) (k - sx)
                                       else a ! r ! k)
                              [0..<length (a ! r)]) [0..<length a])
         else Inl ValueError)"

definition norm2 :: "point \<Rightarrow> point \<Rightarrow> real" where
  \<comment> \<open>\<open>np.linalg.norm(p - q)\<close>\<close>
  "norm2 p q = sqrt ((fst p - fst q)\<^sup>2 + (snd p - snd q)\<^sup>2)"

definition argmin :: "real list \<Rightarrow> nat" where
  \<comment> \<open>the first index of the least element\<close>
  "argmin xs = length (takeWhile (\<lambda>v. v \<noteq> Min (set xs)) xs)"

definition roll :: "'a list \<Rightarrow> nat \<Rightarrow> 'a list" where
  \<comment> \<open>\<open>np.roll(xs, s, 0)\<close>: element \<open>i\<close> moves to position \<open>(i + s) mod n\<close>\<close>
  "roll xs s = rotate ((length xs - s mod length xs) mod length xs) xs"

definition scale2 :: "box \<Rightarrow> box" where
  "scale2 b = map (\<lambda>(x, y). (2 * x, 2 * y)) b"

definition box_of_contour :: "cv2_ops \<Rightarrow> contour \<Rightarrow> py_error + box" where
  \<comment> \<open>lines 222 to 234: the rotated box of a contour, or its bounding box when the rotated
      box is almost a square\<close>
  "box_of_contour cv contour =
     (case boxPoints cv (minAreaRect cv contour) of (p0, p1, p2, p3) \<Rightarrow>
        let box = [p0, p1, p2, p3];
            w = norm2 p0 p1;
            h = norm2 p1 p2;
            box_ratio = max w h / (min w h + 1 / 100000)
        in if \<bar>1 - box_ratio\<bar> \<le> 1 / 10
           then if contour = [] then Inl ValueError
                else
                  let l = real_of_int (Min (set (map fst contour)));
                      r = real_of_int (Max (set (map fst contour)));
                      t = real_of_int (Min (set (map snd contour)));
                      b = real_of_int (Max (set (map snd contour)))
                  in Inr (scale2 [(l, t), (r, t), (r, b), (l, b)])
           else Inr (scale2 (roll box (4 - argmin (map (\<lambda>(x, y). x + y) box)))))"

definition dilate_segmap ::
  "cv2_ops \<Rightarrow> plane \<Rightarrow> stat \<Rightarrow> nat \<Rightarrow> nat \<Rightarrow> py_error + plane" where
  \<comment> \<open>lines 204 to 215: the window around the component is replaced by its dilation\<close>
  "dilate_segmap cv segmap st img_h img_w =
     (case st of (x, y, w, h, size') \<Rightarrow>
        if w * h = 0 then Inl ValueError
        else
          let niter = nat \<lfloor>sqrt (real (size' * min w h) / real (w * h)) * 2\<rfloor>;
              sx = nat (max (int x - int niter) 0);
              sy = nat (max (int y - int niter) 0);
              ex = min (x + w + niter + 1) img_w;
              ey = min (y + h + niter + 1) img_h
          in assign_slice segmap sy ey sx ex
               (dilate cv (slice2 segmap sy ey sx ex) (1 + niter)))"

definition box_of_segmap :: "cv2_ops \<Rightarrow> plane \<Rightarrow> py_error + box option" where
  \<comment> \<open>lines 218 to 234: the box of the first contour\<close>
  "box_of_segmap cv segmap =
     (case findContours cv (map_plane astype_uint8 segmap) of
        [] \<Rightarrow> Inl IndexError
      | contour # _ \<Rightarrow> bind_e (box_of_contour cv contour) (\<lambda>box. Inr (Some box)))"

definition segment_box ::
  "cv2_ops \<Rightarrow> real \<Rightarrow> plane \<Rightarrow> plane \<Rightarrow> plane \<Rightarrow> nat list list \<Rightarrow> stat \<Rightarrow> nat
   \<Rightarrow> py_error + box option" where
  \<comment> \<open>the body of the loop after the size filter (lines 195 to 234); \<open>None\<close> is
      \<open>continue\<close>\<close>
  "segment_box cv detection_threshold textmap text_score link_score labels st component_id =
     (if \<not> same_shape labels textmap then Inl IndexError
      else if masked_values textmap labels component_id = [] then Inl ValueError
      else if Max (set (masked_values textmap labels component_id)) < detection_threshold
      then Inr None
      else
        let segmap = carve textmap labels component_id link_score text_score;
            img_h = nrows textmap;
            img_w = ncols textmap
        in bind_e (dilate_segmap cv segmap st img_h img_w) (box_of_segmap cv))"

definition component_box ::
  "cv2_ops \<Rightarrow> real \<Rightarrow> real \<Rightarrow> plane \<Rightarrow> plane \<Rightarrow> plane \<Rightarrow> nat list list \<Rightarrow> stat list \<Rightarrow> nat
   \<Rightarrow> py_error + box option" where
  \<comment> \<open>the body of the loop over the components\<close>
  "component_box cv detection_threshold size_threshold textmap text_score link_score labels stats
     component_id =
     (if length stats \<le> component_id then Inl IndexError
      else case stats ! component_id of (x, y, w, h, size') \<Rightarrow>
        if real size' < size_threshold then Inr None
        else segment_box cv detection_threshold textmap text_score link_score labels
               (x, y, w, h, size') component_id)"

fun boxes_loop :: "(nat \<Rightarrow> py_error + box option) \<Rightarrow> nat list \<Rightarrow> box list \<Rightarrow> py_error + box list" where
  "boxes_loop body [] boxes = Inr boxes"
| "boxes_loop body (component_id # ids) boxes =
     bind_e (body component_id)
       (\<lambda>r. boxes_loop body ids (case r of None \<Rightarrow> boxes | Some box \<Rightarrow> boxes @ [box]))"

definition getBoxes_cur ::
  "cv2_ops \<Rightarrow> real \<Rightarrow> real \<Rightarrow> real \<Rightarrow> real \<Rightarrow> (real \<times> real) list list \<Rightarrow> py_error + box list" where
  \<comment> \<open>the body of the loop over \<open>y_pred\<close>\<close>
  "getBoxes_cur cv detection_threshold text_threshold link_threshold size_threshold y_pred_cur =
     (let textmap = map_plane fst y_pred_cur;
          linkmap = map_plane snd y_pred_cur;
          text_score = text_score_of textmap text_threshold;
          link_score = link_score_of linkmap link_threshold
      in case connectedComponentsWithStats cv (union_mask text_score link_score) of
           (n_components, labels, stats) \<Rightarrow>
             boxes_loop
               (component_box cv detection_threshold size_threshold textmap text_score link_score
                  labels stats)
               [1..<n_components] [])"

fun getBoxes ::
  "cv2_ops \<Rightarrow> real \<Rightarrow> real \<Rightarrow> real \<Rightarrow> real \<Rightarrow> (real \<times> real) list list list
   \<Rightarrow> py_error + box list list" where
  "getBoxes cv detection_threshold text_threshold link_threshold size_threshold [] = Inr []"
| "getBoxes cv detection_threshold text_threshold link_threshold size_threshold
     (y_pred_cur # y_pred) =
     bind_e (getBoxes_cur cv detection_threshold text_threshold link_threshold size_threshold
               y_pred_cur)
       (\<lambda>boxes.
          bind_e (getBoxes cv detection_threshold text_threshold link_threshold size_threshold
                    y_pred)
            (\<lambda>box_groups. Inr (boxes # box_groups)))"





text \<open>
  The corners of a rotated rectangle as OpenCV computes them (\<open>RotatedRect::points\<close>),
  with the angle in degrees, and what OpenCV promises of \<open>boxPoints\<close>: the corners come
  in clockwise order.
\<close>

definition rotated_rect_points :: "rotated_rect \<Rightarrow> point \<times> point \<times> point \<times> point" where
  "rotated_rect_points rr = (case rr of ((cx, cy), (w, h), angle) \<Rightarrow>
     let b = cos (angle * pi / 180) * (1 / 2);
         a = sin (angle * pi / 180) * (1 / 2);
         p0 = (cx - a * h - b * w, cy + b * h - a * w);
         p1 = (cx + a * h - b * w, cy - b * h - a * w);
         p2 = (2 * cx - fst p0, 2 * cy - snd p0);
         p3 = (2 * cx - fst p1, 2 * cy - snd p1)
     in (p0, p1, p2, p3))"


text \<open>
  A stand-in for OpenCV in examples. It is right on masks whose foreground is one filled
  rectangle with sides parallel to the axes: the foreground is one component with its
  bounding box, the dilation is the maximum over the window of the structuring element
  (anchored at its centre), the contour is the four corners of the bounding box and the
  rectangle of least area is the bounding box itself, at angle 0.
\<close>

definition first_true :: "bool list \<Rightarrow> nat" where
  "first_true bs = length (takeWhile Not bs)"

definition last_true :: "bool list \<Rightarrow> nat" where
  "last_true bs = length bs - 1 - first_true (rev bs)"

definition row_flags :: "('a \<Rightarrow> bool) \<Rightarrow> 'a list list \<Rightarrow> bool list" where
  "row_flags fg m = map (\<lambda>row. \<exists>v \<in> set row. fg v) m"

definition col_flags :: "('a \<Rightarrow> bool) \<Rightarrow> 'a list list \<Rightarrow> bool list" where
  "col_flags fg m = map (\<lambda>k. \<exists>row \<in> set m. fg (row ! k)) [0..<ncols m]"

definition blank :: "('a \<Rightarrow> bool) \<Rightarrow> 'a list list \<Rightarrow> bool" where
  "blank fg m = (\<forall>row \<in> set m. \<forall>v \<in> set row. \<not> fg v)"

definition cc_one :: "8 word list list \<Rightarrow> nat \<times> nat list list \<times> stat list" where
  "cc_one msk =
     (let fg = (\<lambda>v. v \<noteq> 0);
          total = length (concat msk);
          area = length (filter fg (concat msk));
          background = (0, 0, ncols msk, nrows msk, total - area)
      in if blank fg msk then (1, map_plane (\<lambda>_. 0) msk, [background])
         else
           let left = first_true (col_flags fg msk);
               top = first_true (row_flags fg msk);
               right = last_true (col_flags fg msk);
               bottom = last_true (row_flags fg msk)
           in (2, map_plane (\<lambda>v. if fg v then 1 else 0) msk,
               [background, (left, top, right - left + 1, bottom - top + 1, area)]))"

definition dilate1 :: "nat \<Rightarrow> real list \<Rightarrow> real list" where
  \<comment> \<open>the maximum over the window \<open>[i - k div 2, i - k div 2 + k)\<close>, cut at the border\<close>
  "dilate1 k xs = map (\<lambda>i. Max (set (drop (i - k div 2) (take (i + (k - k div 2)) xs))))
                    [0..<length xs]"

definition dilate_rect :: "plane \<Rightarrow> nat \<Rightarrow> plane" where
  "dilate_rect src k = transpose (map (dilate1 k) (transpose (map (dilate1 k) src)))"

definition contour_of_bbox :: "8 word list list \<Rightarrow> contour list" where
  "contour_of_bbox img =
     (let fg = (\<lambda>v. v \<noteq> 0)
      in if blank fg img then []
         else
           let l = int (first_true (col_flags fg img));
               t = int (first_true (row_flags fg img));
               r = int (last_true (col_flags fg img));
               b = int (last_true (row_flags fg img))
           in [[(l, t), (l, b), (r, b), (r, t)]])"

definition bounding_rect :: "contour \<Rightarrow> rotated_rect" where
  "bounding_rect contour =
     (if contour = [] then ((0, 0), (0, 0), 0)
      else
        let l = real_of_int (Min (set (map fst contour)));
            r = real_of_int (Max (set (map fst contour)));
            t = real_of_int (Min (set (map snd contour)));
            b = real_of_int (Max (set (map snd contour)))
        in (((l + r) / 2, (t + b) / 2), (r - l, b - t), 0))"

definition cv_rect :: cv2_ops where
  "cv_rect =
     \<lparr>connectedComponentsWithStats = cc_one,
      dilate = dilate_rect,
      findContours = contour_of_bbox,
      minAreaRect = bounding_rect,
      boxPoints = rotated_rect_points\<rparr>"

definition strong_text :: "(real \<times> real) list list" where
  \<comment> \<open>a heatmap pair of 2 rows and 5 columns: text 0.9 and link 0 at every pixel\<close>
  "strong_text = replicate 2 (replicate 5 (9/10, 0))"

definition strong_text_and_link :: "(real \<times> real) list list" where
  \<comment> \<open>a heatmap pair of 2 rows and 5 columns: text 0.9 and link 0.9 at every pixel\<close>
  "strong_text_and_link = replicate 2 (replicate 5 (9/10, 9/10))"

section \<open>The functions on a store of arrays\<close>

text \<open>
  To say what a call does to the arrays of its caller, the arrays live in a store: a list
  of arrays, an array's address being its position. A function takes addresses and the
  store and returns its result (or the exception) with the new store. Creating an array
  (\<open>astype\<close>, \<open>copy\<close>, \<open>np.zeros_like\<close>, the result of \<open>cv2.threshold\<close> or \<open>clip\<close>)
  appends a cell; an in-place operation (\<open>-=\<close>, \<open>/=\<close>, \<open>*=\<close>, \<open>+=\<close>, an assignment to
  a mask or a slice) overwrites the cell of its target.
\<close>

datatype ndarray =
    Image8 "8 word image"
  | ImageF "real image"
  | HeatmapPair "(real \<times> real) list list"
  | Plane plane

type_synonym store = "ndarray list"

definition alloc :: "store \<Rightarrow> ndarray \<Rightarrow> nat \<times> store" where
  "alloc s v = (length s, s @ [v])"

definition lookup :: "store \<Rightarrow> nat \<Rightarrow> ndarray option" where
  "lookup s a = (if a < length s then Some (s ! a) else None)"

definition plane_at :: "store \<Rightarrow> nat \<Rightarrow> plane" where
  "plane_at s a = (case lookup s a of Some (Plane p) \<Rightarrow> p | _ \<Rightarrow> [])"

definition update_image :: "store \<Rightarrow> nat \<Rightarrow> (real image \<Rightarrow> real image) \<Rightarrow> store" where
  \<comment> \<open>an in-place operation on the float image at address \<open>a\<close>\<close>
  "update_image s a f = (case lookup s a of Some (ImageF x) \<Rightarrow> s[a := ImageF (f x)] | _ \<Rightarrow> s)"

definition update_plane :: "store \<Rightarrow> nat \<Rightarrow> (plane \<Rightarrow> plane) \<Rightarrow> store" where
  \<comment> \<open>an in-place operation on the 2-dimensional array at address \<open>a\<close>\<close>
  "update_plane s a f = (case lookup s a of Some (Plane p) \<Rightarrow> s[a := Plane (f p)] | _ \<Rightarrow> s)"

definition compute_input_st ::
  "(real \<Rightarrow> real) \<Rightarrow> (real \<Rightarrow> real) \<Rightarrow> store \<Rightarrow> nat \<Rightarrow> (py_error + nat) \<times> store" where
  \<comment> \<open>\<open>compute_input\<close> on the 8-bit image at address \<open>image\<close>; the result is the
      address of the normalised image\<close>
  "compute_input_st f64 f32 s img =
     (case lookup s img of
        Some (Image8 pixels) \<Rightarrow>
          let (img, s) = alloc s (ImageF (astype_float32 pixels));
              s = update_image s img (\<lambda>x. isub f64 f32 x (times255 f64 mean));
              s = update_image s img (\<lambda>x. idiv f64 f32 x (times255 f64 variance))
          in (Inr img, s)
      | _ \<Rightarrow> (Inl ValueError, s))"

definition invert_input_st ::
  "(real \<Rightarrow> real) \<Rightarrow> (real \<Rightarrow> real) \<Rightarrow> store \<Rightarrow> nat \<Rightarrow> (py_error + nat) \<times> store" where
  "invert_input_st f64 f32 s X =
     (case lookup s X of
        Some (ImageF values) \<Rightarrow>
          let (X, s) = alloc s (ImageF values);
              s = update_image s X (\<lambda>x. imul f64 f32 x (times255 f64 variance));
              s = update_image s X (\<lambda>x. iadd f64 f32 x (times255 f64 mean));
              (clipped, s) = alloc s (case lookup s X of
                                        Some (ImageF x) \<Rightarrow> ImageF (map (map (map_rgb (clip 0 255))) x)
                                      | _ \<Rightarrow> ImageF []);
              (result, s) = alloc s (case lookup s clipped of
                                       Some (ImageF x) \<Rightarrow> Image8 (map (map (map_rgb astype_uint8)) x)
                                     | _ \<Rightarrow> Image8 [])
          in (Inr result, s)
      | _ \<Rightarrow> (Inl ValueError, s))"

definition segment_box_st ::
  "cv2_ops \<Rightarrow> real \<Rightarrow> nat \<Rightarrow> nat \<Rightarrow> nat \<Rightarrow> nat list list \<Rightarrow> stat \<Rightarrow> nat \<Rightarrow> store
   \<Rightarrow> (py_error + box option) \<times> store" where
  "segment_box_st cv detection_threshold textmap text_score link_score labels st component_id s =
     (if \<not> same_shape labels (plane_at s textmap) then (Inl IndexError, s)
      else if masked_values (plane_at s textmap) labels component_id = [] then (Inl ValueError, s)
      else if Max (set (masked_values (plane_at s textmap) labels component_id))
                < detection_threshold
      then (Inr None, s)
      else
        let (segmap, s) = alloc s (Plane (map_plane (\<lambda>_. 0) (plane_at s textmap)));
            s = update_plane s segmap (\<lambda>p. mark_component p labels component_id);
            s = update_plane s segmap
                  (\<lambda>p. carve_links p (plane_at s link_score) (plane_at s text_score));
            img_h = nrows (plane_at s textmap);
            img_w = ncols (plane_at s textmap)
        in case dilate_segmap cv (plane_at s segmap) st img_h img_w of
             Inl e \<Rightarrow> (Inl e, s)
           | Inr assigned \<Rightarrow>
               let s = update_plane s segmap (\<lambda>_. assigned)
               in (box_of_segmap cv (plane_at s segmap), s))"

definition component_box_st ::
  "cv2_ops \<Rightarrow> real \<Rightarrow> real \<Rightarrow> nat \<Rightarrow> nat \<Rightarrow> nat \<Rightarrow> nat list list \<Rightarrow> stat list \<Rightarrow> nat \<Rightarrow> store
   \<Rightarrow> (py_error + box option) \<times> store" where
  "component_box_st cv detection_threshold size_threshold textmap text_score link_score labels
     stats component_id s =
     (if length stats \<le> component_id then (Inl IndexError, s)
      else case stats ! component_id of (x, y, w, h, size') \<Rightarrow>
        if real size' < size_threshold then (Inr None, s)
        else segment_box_st cv detection_threshold textmap text_score link_score labels
               (x, y, w, h, size') component_id s)"

fun boxes_loop_st ::
  "(nat \<Rightarrow> store \<Rightarrow> (py_error + box option) \<times> store) \<Rightarrow> nat list \<Rightarrow> box list \<Rightarrow> store
   \<Rightarrow> (py_error + box list) \<times> store" where
  "boxes_loop_st body [] boxes s = (Inr boxes, s)"
| "boxes_loop_st body (component_id # ids) boxes s =
     (case body component_id s of
        (Inl e, s) \<Rightarrow> (Inl e, s)
      | (Inr r, s) \<Rightarrow>
          boxes_loop_st body ids (case r of None \<Rightarrow> boxes | Some box \<Rightarrow> boxes @ [box]) s)"

definition getBoxes_cur_st ::
  "cv2_ops \<Rightarrow> real \<Rightarrow> real \<Rightarrow> real \<Rightarrow> real \<Rightarrow> store \<Rightarrow> nat \<Rightarrow> (py_error + box list) \<times> store" where
  "getBoxes_cur_st cv detection_threshold text_threshold link_threshold size_threshold s
     y_pred_cur =
     (case lookup s y_pred_cur of
        Some (HeatmapPair y) \<Rightarrow>
          let (textmap, s) = alloc s (Plane (map_plane fst y));
              (linkmap, s) = alloc s (Plane (map_plane snd y));
              (text_score, s) = alloc s (Plane (text_score_of (plane_at s textmap) text_threshold));
              (link_score, s) = alloc s (Plane (link_score_of (plane_at s linkmap) link_threshold))
          in case connectedComponentsWithStats cv
                    (union_mask (plane_at s text_score) (plane_at s link_score)) of
               (n_components, labels, stats) \<Rightarrow>
                 boxes_loop_st
                   (component_box_st cv detection_threshold size_threshold textmap text_score
                      link_score labels stats)
                   [1..<n_components] [] s
      | _ \<Rightarrow> (Inl ValueError, s))"

fun getBoxes_st ::
  "cv2_ops \<Rightarrow> real \<Rightarrow> real \<Rightarrow> real \<Rightarrow> real \<Rightarrow> store \<Rightarrow> nat list
   \<Rightarrow> (py_error + box list list) \<times> store" where
  "getBoxes_st cv detection_threshold text_threshold link_threshold size_threshold s [] =
     (Inr [], s)"
| "getBoxes_st cv detection_threshold text_threshold link_threshold size_threshold s
     (y_pred_cur # y_pred) =
     (case getBoxes_cur_st cv detection_threshold text_threshold link_threshold size_threshold s
             y_pred_cur of
        (Inl e, s) \<Rightarrow> (Inl e, s)
      | (Inr boxes, s) \<Rightarrow>
          (case getBoxes_st cv detection_threshold text_threshold link_threshold size_threshold
                  s y_pred of
             (Inl e, s) \<Rightarrow> (Inl e, s)
           | (Inr box_groups, s) \<Rightarrow> (Inr (boxes # box_groups), s)))"

text \<open>The arrays of \<open>s\<close> are unchanged in \<open>s'\<close>.\<close>

definition unchanged :: "store \<Rightarrow> store \<Rightarrow> bool" where
  "unchanged s s' = (\<forall>a < length s. a < length s' \<and> s' ! a = s ! a)"

section \<open>Raising and returning\<close>

lemma bind_e_Inl [simp]: "bind_e (Inl e) f = Inl e"
  by (simp add: bind_e_def)

lemma bind_e_Inr [simp]: "bind_e (Inr a) f = f a"
  by (simp add: bind_e_def)

lemma bind_e_eq_Inl: "bind_e m f = Inl e \<longleftrightarrow> m = Inl e \<or> (\<exists>a. m = Inr a \<and> f a = Inl e)"
  by (cases m) auto

lemma bind_e_eq_Inr: "bind_e m f = Inr b \<longleftrightarrow> (\<exists>a. m = Inr a \<and> f a = Inr b)"
  by (cases m) auto

section \<open>Binarisation: strictly greater than the threshold\<close>




section \<open>Normalisation round trip\<close>

lemma comp_round:
  assumes "rounds_within e f64" "rounds_within e f32" "0 \<le> e" "e \<le> 1/256" "\<bar>x\<bar> \<le> 1000"
  shows "\<bar>f32 (f64 x) - x\<bar> \<le> 2 * e"
proof -
  have 1: "\<bar>f64 x - x\<bar> \<le> e" using assms by (simp add: rounds_within_def)
  then have "\<bar>f64 x\<bar> \<le> 1024" using assms by linarith
  then have "\<bar>f32 (f64 x) - f64 x\<bar> \<le> e" using assms by (simp add: rounds_within_def)
  with 1 show ?thesis by linarith
qed

lemma scaled_bounds:
  assumes "rounds_within e f64" "0 \<le> e" "e \<le> 1/256" "0 \<le> c" "c \<le> 1/2"
  shows "\<bar>f64 (f64 c * 255) - c * 255\<bar> \<le> 256 * e"
proof -
  have 1: "\<bar>f64 c - c\<bar> \<le> e" using assms by (simp add: rounds_within_def)
  then have "\<bar>f64 c * 255\<bar> \<le> 1024" using assms by linarith
  then have "\<bar>f64 (f64 c * 255) - f64 c * 255\<bar> \<le> e" using assms by (simp add: rounds_within_def)
  with 1 show ?thesis by linarith
qed

lemma roundtrip_real:
  assumes R: "rounds_within e f64" "rounds_within e f32" and e: "0 \<le> e" "e \<le> 1/256"
    and m: "0 \<le> m" "m \<le> 1/2" and v: "2/10 \<le> v" "v \<le> 1/4" and x: "0 \<le> x" "x \<le> 255"
  defines "sm \<equiv> f64 (f64 m * 255)" and "sv \<equiv> f64 (f64 v * 255)"
  defines "a \<equiv> f32 (f64 (x - sm))"
  defines "b \<equiv> f32 (f64 (a / sv))"
  defines "y \<equiv> f32 (f64 (b * sv))"
  defines "z \<equiv> f32 (f64 (y + sm))"
  shows "\<bar>z - x\<bar> < 1"
proof -
  have sm: "\<bar>sm - m * 255\<bar> \<le> 256 * e" unfolding sm_def using scaled_bounds[OF R(1) e m] .
  have sv: "\<bar>sv - v * 255\<bar> \<le> 256 * e" unfolding sv_def using scaled_bounds[OF R(1) e] v by simp
  have svlo: "50 \<le> sv" and svhi: "sv \<le> 65" using sv v e by linarith+
  have smb: "\<bar>sm\<bar> \<le> 129" using sm m e by linarith
  have a: "\<bar>a - (x - sm)\<bar> \<le> 2 * e" unfolding a_def
    using comp_round[OF R e] x smb by simp
  have ab: "\<bar>a\<bar> \<le> 385" using a x smb e by linarith
  have "\<bar>a\<bar> * 1 \<le> \<bar>a\<bar> * sv" using svlo by (intro mult_left_mono) auto
  then have "\<bar>a / sv\<bar> \<le> \<bar>a\<bar>" using svlo
    by (simp add: divide_le_eq)
  then have absv: "\<bar>a / sv\<bar> \<le> 1000" using ab by linarith
  have b: "\<bar>b - a / sv\<bar> \<le> 2 * e" unfolding b_def using comp_round[OF R e absv] .
  have "b * sv - a = (b - a / sv) * sv" using svlo by (simp add: field_simps)
  then have "\<bar>b * sv - a\<bar> = \<bar>b - a / sv\<bar> * sv" using svlo by (simp add: abs_mult)
  also have "\<dots> \<le> (2 * e) * 65"
    using b svhi svlo e by (intro mult_mono) auto
  finally have bs: "\<bar>b * sv - a\<bar> \<le> 130 * e" by simp
  then have "\<bar>b * sv\<bar> \<le> 1000" using ab e by linarith
  then have y: "\<bar>y - b * sv\<bar> \<le> 2 * e" unfolding y_def using comp_round[OF R e] by simp
  have "\<bar>y + sm\<bar> \<le> 1000" using y bs a x e by linarith
  then have z: "\<bar>z - (y + sm)\<bar> \<le> 2 * e" unfolding z_def using comp_round[OF R e] by simp
  have "\<bar>z - x\<bar> \<le> 136 * e" using z y bs a by linarith
  then show ?thesis using e by linarith
qed

lemma uint8_near:
  fixes p :: "8 word"
  assumes "\<bar>z - uint8_value p\<bar> < 1"
  shows "close_px (astype_uint8 (clip 0 255 z)) p"
proof -
  define n where "n = uint p"
  have n: "0 \<le> n" "n \<le> 255" using uint_lt2p[of p] by (auto simp: n_def)
  have zn: "\<bar>z - real_of_int n\<bar> < 1" using assms by (simp add: n_def uint8_value_def)
  have zc: "\<bar>clip 0 255 z - real_of_int n\<bar> < 1" "0 \<le> clip 0 255 z" "clip 0 255 z \<le> 255"
    using zn n by (auto simp: clip_def)
  define k where "k = \<lfloor>clip 0 255 z\<rfloor>"
  have k: "0 \<le> k" "k \<le> 255" "\<bar>k - n\<bar> \<le> 1" using zc unfolding k_def by linarith+
  have "trunc (clip 0 255 z) = k" using zc by (simp add: trunc_def k_def)
  then have "astype_uint8 (clip 0 255 z) = word_of_int k" by (simp add: astype_uint8_def)
  moreover have "uint (word_of_int k :: 8 word) = k"
    using k by (simp add: uint_word_of_int)
  ultimately show ?thesis using k by (simp add: close_px_def n_def)
qed


lemma roundtrip_px:
  fixes p :: "8 word"
  assumes R: "rounds_within e f64" "rounds_within e f32" and e: "0 \<le> e" "e \<le> 1/256"
    and m: "0 \<le> m" "m \<le> 1/2" and v: "2/10 \<le> v" "v \<le> 1/4"
  shows "close_px (astype_uint8 (clip 0 255
            (f32 (f64 (f32 (f64 (f32 (f64 (f32 (f64 (uint8_value p - f64 (f64 m * 255)))
                / f64 (f64 v * 255))) * f64 (f64 v * 255))) + f64 (f64 m * 255)))))) p"
proof -
  have "0 \<le> uint p" "uint p \<le> 255" using uint_lt2p[of p] by auto
  then have "0 \<le> uint8_value p" "uint8_value p \<le> 255"
    unfolding uint8_value_def by linarith+
  from roundtrip_real[OF R e m v this] show ?thesis
    by (intro uint8_near) simp
qed

lemma roundtrip_rgb:
  assumes R: "rounds_within e f64" "rounds_within e f32" and e: "0 \<le> e" "e \<le> 1/256"
  shows "close_rgb
     (map_rgb (\<lambda>x. astype_uint8 (clip 0 255 x))
       (zip_rgb (\<lambda>x c. f32 (f64 (x + c)))
         (zip_rgb (\<lambda>x c. f32 (f64 (x * c)))
           (zip_rgb (\<lambda>x c. f32 (f64 (x / c)))
             (zip_rgb (\<lambda>x c. f32 (f64 (x - c))) (map_rgb uint8_value px)
               (times255 f64 mean))
             (times255 f64 variance))
           (times255 f64 variance))
         (times255 f64 mean))) px"
proof -
  obtain r g b where px: "px = (r, g, b)" by (cases px)
  show ?thesis
    unfolding px close_rgb_def map_rgb_def zip_rgb_def times255_def mean_def variance_def
    by (simp add: roundtrip_px[OF R e])
qed

lemma round256_within: "rounds_within (1/256) round256"
proof -
  have "\<bar>real_of_int \<lfloor>x * 256\<rfloor> / 256 - x\<bar> \<le> 1 / 256" for x :: real
  proof -
    have "real_of_int \<lfloor>x * 256\<rfloor> \<le> x * 256" "x * 256 < real_of_int \<lfloor>x * 256\<rfloor> + 1"
      by linarith+
    then show ?thesis by (simp add: abs_le_iff field_simps)
  qed
  then show ?thesis by (simp add: rounds_within_def round256_def)
qed

lemma roundtrip_loses_one:
  "invert_input round256 round256 (compute_input round256 round256 [[(5, 128, 255)]])
     = [[(4, 127, 254)]]"
  by (simp add: invert_input_def compute_input_def astype_float32_def isub_def idiv_def
      imul_def iadd_def times255_def mean_def variance_def map_rgb_def zip_rgb_def
      round256_def uint8_value_def clip_def astype_uint8_def trunc_def Let_def)

text \<open>
  C5: for every 8-bit RGB image, \<open>invert_input (compute_input I)\<close> equals the image up to
  plus-or-minus 1 in each channel of each pixel. The statement holds for every pair of
  roundings that move a number of magnitude at most 1024 by at most 1/256, as rounding to
  float32 and to float64 do; the tolerance is needed because the final conversion to uint8
  drops the fraction (\<open>roundtrip_loses_one\<close> is an example with a coarse rounding).
\<close>

theorem invert_compute_within_one:
  assumes "rounds_within e f64" "rounds_within e f32" "0 \<le> e" "e \<le> 1/256"
  shows "list_all2 (list_all2 close_rgb) (invert_input f64 f32 (compute_input f64 f32 I)) I"
  unfolding invert_input_def compute_input_def Let_def astype_float32_def isub_def idiv_def
    imul_def iadd_def
  by (simp add: list_all2_map1 list_all2_same o_def roundtrip_rgb[OF assms] del: of_int_uint)

theorem invert_compute_within_one_witness:
  "rounds_within (1/256) round256 \<and>
   invert_input round256 round256 (compute_input round256 round256 [[(5, 128, 255)]])
     = [[(4, 127, 254)]] \<and>
   list_all2 (list_all2 close_rgb) [[(4, 127, 254)]] [[(5, 128, 255)]]"
  using round256_within roundtrip_loses_one
    invert_compute_within_one [OF round256_within round256_within, of "[[(5, 128, 255)]]"]
  by simp

section \<open>The kernel, pixel by pixel\<close>

text \<open>
  Every operation of the kernel is followed through with its rounding: the samples of
  \<open>np.linspace\<close> are within \<open>4 * size * e\<close> of the evenly spaced values, and the value of
  a pixel before the conversion to uint8 is within \<open>2^24 * e\<close> of \<open>255 * exp (- d\<^sup>2 / 2)\<close>.
\<close>

lemma f64_rnd: "float64_like e rnd fexp \<Longrightarrow> \<bar>x\<bar> \<le> 2 ^ 21 \<Longrightarrow> \<bar>rnd x - x\<bar> \<le> e"
  by (simp add: float64_like_def)

lemma f64_nonneg: "float64_like e rnd fexp \<Longrightarrow> 0 \<le> x \<Longrightarrow> 0 \<le> rnd x"
  by (simp add: float64_like_def)

lemma f64_exp:
  "float64_like e rnd fexp \<Longrightarrow> - (2 ^ 21) \<le> x \<Longrightarrow> x \<le> 1 \<Longrightarrow> \<bar>fexp x - exp x\<bar> \<le> e"
  by (simp add: float64_like_def)

lemma f64_e_nonneg: "float64_like e rnd fexp \<Longrightarrow> 0 \<le> e"
  using f64_rnd[of e rnd fexp 0] by simp

lemma rnd_step:
  assumes "float64_like e rnd fexp" "\<bar>x - x0\<bar> \<le> d" "\<bar>x0\<bar> + d \<le> 2 ^ 21"
  shows "\<bar>rnd x - x0\<bar> \<le> d + e"
proof -
  from assms(2,3) have "\<bar>x\<bar> \<le> 2 ^ 21" by linarith
  from f64_rnd[OF assms(1) this] assms(2) show ?thesis by linarith
qed

lemma mult_err:
  fixes a b a0 b0 :: real
  assumes "\<bar>a - a0\<bar> \<le> da" "\<bar>b - b0\<bar> \<le> db"
  shows "\<bar>a * b - a0 * b0\<bar> \<le> da * (\<bar>b0\<bar> + db) + \<bar>a0\<bar> * db"
proof -
  have eq: "a * b - a0 * b0 = (a - a0) * b + a0 * (b - b0)" by algebra
  have "\<bar>(a - a0) * b + a0 * (b - b0)\<bar> \<le> \<bar>(a - a0) * b\<bar> + \<bar>a0 * (b - b0)\<bar>"
    by (rule abs_triangle_ineq)
  then have 1: "\<bar>a * b - a0 * b0\<bar> \<le> \<bar>a - a0\<bar> * \<bar>b\<bar> + \<bar>a0\<bar> * \<bar>b - b0\<bar>"
    by (simp add: eq abs_mult)
  have b: "\<bar>b\<bar> \<le> \<bar>b0\<bar> + db" using assms(2) by linarith
  have 2: "\<bar>a - a0\<bar> * \<bar>b\<bar> \<le> da * (\<bar>b0\<bar> + db)"
    using assms(1) b by (intro mult_mono) auto
  have 3: "\<bar>a0\<bar> * \<bar>b - b0\<bar> \<le> \<bar>a0\<bar> * db"
    using assms(2) by (intro mult_left_mono) auto
  from 1 2 3 show ?thesis by linarith
qed

lemma square_err:
  fixes x x0 :: real
  assumes "\<bar>x - x0\<bar> \<le> d" "\<bar>x0\<bar> \<le> m"
  shows "\<bar>x\<^sup>2 - x0\<^sup>2\<bar> \<le> d * (2 * m + d)"
proof -
  have d0: "0 \<le> d" using assms(1) by linarith
  have "\<bar>x * x - x0 * x0\<bar> \<le> d * (\<bar>x0\<bar> + d) + \<bar>x0\<bar> * d"
    by (rule mult_err[OF assms(1) assms(1)])
  also have "\<dots> = d * (2 * \<bar>x0\<bar> + d)" by algebra
  also have "\<dots> \<le> d * (2 * m + d)" using assms(2) d0 by (intro mult_left_mono) auto
  finally show ?thesis by (simp add: power2_eq_square)
qed

lemma linspace_length: "length (linspace rnd a b n) = n"
  by (simp add: linspace_def Let_def)

lemma linspace_nth_1: "linspace rnd a b (Suc 0) ! 0 = rnd (rnd (0 * rnd (b - a)) + a)"
  by (simp add: linspace_def Let_def)

lemma linspace_nth:
  assumes "2 \<le> n" "k < n" "rnd (rnd (b - a) / real (n - 1)) \<noteq> 0"
  shows "linspace rnd a b n ! k =
     (if k = n - 1 then b else rnd (rnd (real k * rnd (rnd (b - a) / real (n - 1))) + a))"
  using assms by (simp add: linspace_def Let_def nth_list_update)


lemma linspace_err:
  assumes F: "float64_like e rnd fexp" and e: "e \<le> 1 / 2 ^ 32"
    and n: "1 \<le> n" "n \<le> 1024" and k: "k < n"
    and a: "\<bar>a - (- real n / 2)\<bar> \<le> e" and b: "\<bar>b - real n / 2\<bar> \<le> e"
  shows "\<bar>linspace rnd a b n ! k - sample_coord n k\<bar> \<le> 4 * real n * e"
proof (cases "n = 1")
  case True
  have e0: "0 \<le> e" by (rule f64_e_nonneg[OF F])
  have r0: "\<bar>rnd 0 - 0\<bar> \<le> 0 + e" by (rule rnd_step[OF F]) simp_all
  have "\<bar>rnd 0 + a - (- 1 / 2)\<bar> \<le> 2 * e" using r0 a True by simp
  from rnd_step[OF F this] e e0 have "\<bar>rnd (rnd 0 + a) - (- 1 / 2)\<bar> \<le> 2 * e + e" by simp
  with True k e0 show ?thesis by (simp add: linspace_nth_1 sample_coord_def)
next
  case False
  with n have n2: "2 \<le> n" by simp
  define N where "N = real n"
  define m where "m = real (n - 1)"
  have m: "m = N - 1" "1 \<le> m" using n2 by (simp_all add: m_def N_def)
  have N: "2 \<le> N" "N \<le> 1024" using n2 n by (simp_all add: N_def)
  have e0: "0 \<le> e" by (rule f64_e_nonneg[OF F])
  have es: "e \<le> 1 / 1024" using e by simp
  define delta where "delta = rnd (b - a)"
  define step where "step = rnd (delta / m)"
  have "\<bar>(b - a) - N\<bar> \<le> 2 * e" using a b by (simp add: N_def)
  from rnd_step[OF F this] N es have delta: "\<bar>delta - N\<bar> \<le> 3 * e" by (simp add: delta_def)
  have "delta / m - N / m = (delta - N) / m" by (simp add: diff_divide_distrib)
  then have "\<bar>delta / m - N / m\<bar> = \<bar>delta - N\<bar> / m" using m by simp
  also have "\<dots> \<le> \<bar>delta - N\<bar> / 1" using m by (intro divide_left_mono) auto
  finally have dm: "\<bar>delta / m - N / m\<bar> \<le> 3 * e" using delta by simp
  have Nm: "1 \<le> N / m" "N / m \<le> 2" using m by (simp_all add: field_simps)
  from rnd_step[OF F dm] Nm es have step: "\<bar>step - N / m\<bar> \<le> 4 * e" by (simp add: step_def)
  with Nm es have s0: "step \<noteq> 0" by linarith
  then have s0': "rnd (rnd (b - a) / real (n - 1)) \<noteq> 0" by (simp add: step_def delta_def m_def)
  show ?thesis
  proof (cases "k = n - 1")
    case True
    have "sample_coord n k = - N / 2 + m * (N / m)"
      using n2 True by (simp add: sample_coord_def N_def m_def)
    also have "\<dots> = N / 2" using m by simp
    finally have "sample_coord n k = real n / 2" by (simp add: N_def)
    moreover have "linspace rnd a b n ! k = b"
      using linspace_nth[of n k rnd b a, OF n2 k s0'] True by simp
    moreover have "e \<le> 4 * real n * e"
    proof -
      have "1 * e \<le> (4 * N) * e" using e0 N by (intro mult_right_mono) auto
      then show ?thesis by (simp add: N_def)
    qed
    ultimately show ?thesis using b by simp
  next
    case False
    define K where "K = real k"
    have K: "0 \<le> K" "K + 1 \<le> m" using False k n2 by (simp_all add: K_def m_def)
    define Q where "Q = K * (N / m)"
    have "K * step - Q = K * (step - N / m)" unfolding Q_def by algebra
    then have "\<bar>K * step - Q\<bar> = K * \<bar>step - N / m\<bar>" using K by (simp add: abs_mult)
    also have "\<dots> \<le> K * (4 * e)" using step K by (intro mult_left_mono) auto
    finally have ks: "\<bar>K * step - Q\<bar> \<le> 4 * K * e" by simp
    have "Q \<le> m * 2" unfolding Q_def using K Nm m by (intro mult_mono) auto
    moreover have "0 \<le> Q" unfolding Q_def using K Nm by simp
    ultimately have kb: "\<bar>Q\<bar> \<le> 2048" using m N by linarith
    have "K * e \<le> 1024 * (1 / 1024)" using K m N es e0 by (intro mult_mono) auto
    then have Ke: "4 * K * e \<le> 4" by simp
    have "\<bar>Q\<bar> + 4 * K * e \<le> 2 ^ 21" using kb Ke by simp
    from rnd_step[OF F ks this] have r1: "\<bar>rnd (K * step) - Q\<bar> \<le> 4 * K * e + e" .
    have a': "\<bar>a - (- N / 2)\<bar> \<le> e" using a by (simp add: N_def)
    have r1': "\<bar>rnd (K * step) + a - (- N / 2 + Q)\<bar> \<le> 4 * K * e + 2 * e"
      using r1 a' by linarith
    have "\<bar>- N / 2 + Q\<bar> \<le> 4096" using kb N by linarith
    then have "\<bar>- N / 2 + Q\<bar> + (4 * K * e + 2 * e) \<le> 2 ^ 21"
      using Ke es by simp
    from rnd_step[OF F r1' this]
    have r2: "\<bar>rnd (rnd (K * step) + a) - (- N / 2 + Q)\<bar> \<le> 4 * K * e + 2 * e + e" .
    have "4 * K * e + 3 * e = (4 * K + 3) * e" by algebra
    also have "\<dots> \<le> (4 * N) * e" using K m e0 by (intro mult_right_mono) auto
    finally have le: "4 * K * e + 2 * e + e \<le> 4 * N * e" by simp
    have sc: "sample_coord n k = - N / 2 + Q"
      using n2 by (simp add: sample_coord_def N_def m_def K_def Q_def)
    have "linspace rnd a b n ! k = rnd (rnd (K * step) + a)"
      using linspace_nth[of n k rnd b a, OF n2 k s0'] False by (simp add: K_def step_def delta_def m_def)
    with r2 le sc show ?thesis by (simp add: N_def)
  qed
qed


lemma exp_le_2: "exp (v::real) \<le> 2" if "v \<le> 1 / 2"
proof -
  have "1 + (- v) \<le> exp (- v)" by (rule exp_ge_add_one_self)
  with that have "1 / 2 \<le> exp (- v)" by linarith
  then have "1 / 2 \<le> 1 / exp v" by (simp add: exp_minus inverse_eq_divide)
  then show ?thesis by (simp add: field_simps)
qed

lemma exp_lip_aux: "exp v - exp u \<le> 2 * (v - u)" if "u \<le> v" "v \<le> 1 / 2" for u v :: real
proof -
  have "1 + (u - v) \<le> exp (u - v)" by (rule exp_ge_add_one_self)
  then have "1 - exp (u - v) \<le> v - u" by linarith
  then have "exp v * (1 - exp (u - v)) \<le> exp v * (v - u)" by (intro mult_left_mono) auto
  moreover have "exp v * (1 - exp (u - v)) = exp v - exp u"
    by (simp add: algebra_simps exp_add[symmetric])
  moreover have "exp v * (v - u) \<le> 2 * (v - u)"
    using exp_le_2[OF that(2)] that(1) by (intro mult_right_mono) auto
  ultimately show ?thesis by linarith
qed

lemma exp_lip: "\<bar>exp u - exp v\<bar> \<le> 2 * \<bar>u - v\<bar>" if "u \<le> 1 / 2" "v \<le> 1 / 2" for u v :: real
proof (cases "u \<le> v")
  case True
  from exp_lip_aux[OF True that(2)] True show ?thesis by simp
next
  case False
  then have "v \<le> u" by simp
  from exp_lip_aux[OF this that(1)] False show ?thesis by simp
qed

lemma kernel_px_err:
  assumes F: "float64_like e rnd fexp" and e: "e \<le> 1 / 2 ^ 32"
    and N: "1 \<le> N" "N \<le> 1024" and r: "\<bar>r\<bar> \<le> 8"
    and x: "\<bar>x - sx\<bar> \<le> 4 * N * e" "\<bar>sx\<bar> \<le> N / 2"
    and y: "\<bar>y - sy\<bar> \<le> 4 * N * e" "\<bar>sy\<bar> \<le> N / 2"
    and c: "\<bar>c - r / (N / 2)\<bar> \<le> 65 * e" "N * \<bar>c - r / (N / 2)\<bar> \<le> (64 + N) * e"
  shows "\<bar>kernel_px rnd fexp c x y - 255 * exp (- (1 / 2) * (sqrt (sx\<^sup>2 + sy\<^sup>2) * (r / (N / 2)))\<^sup>2)\<bar>
     \<le> 2 ^ 24 * e"
proof -
  have e0: "0 \<le> e" by (rule f64_e_nonneg[OF F])
  define a where "a = N * e"
  define B where "B = N * N * e"
  define NN where "NN = N * N"
  have NN: "1 \<le> NN" "NN \<le> 1048576"
  proof -
    have "1 * 1 \<le> N * N" using N by (intro mult_mono) auto
    then show "1 \<le> NN" by (simp add: NN_def)
    have "N * N \<le> 1024 * 1024" using N by (intro mult_mono) auto
    then show "NN \<le> 1048576" by (simp add: NN_def)
  qed
  have a0: "0 \<le> a" using N e0 by (simp add: a_def)
  have ea: "e \<le> a"
  proof -
    have "1 * e \<le> N * e" using N e0 by (intro mult_right_mono) auto
    then show ?thesis by (simp add: a_def)
  qed
  have aB: "a \<le> B"
  proof -
    have "1 * a \<le> N * a" using N a0 by (intro mult_right_mono) auto
    then show ?thesis by (simp add: a_def B_def)
  qed
  have a1: "a \<le> 1 / 2 ^ 22"
  proof -
    have "N * e \<le> 1024 * (1 / 2 ^ 32)" using N e e0 by (intro mult_mono) auto
    then show ?thesis by (simp add: a_def)
  qed
  have B1: "B \<le> 1 / 2 ^ 12"
  proof -
    have "N * a \<le> 1024 * (1 / 2 ^ 22)" using N a1 a0 by (intro mult_mono) auto
    then show ?thesis by (simp add: a_def B_def)
  qed
  have aa: "a * a \<le> a / 16"
  proof -
    have "a * a \<le> a * (1 / 16)" using a0 a1 by (intro mult_left_mono) auto
    then show ?thesis by simp
  qed
  have sq: "\<bar>rnd (u\<^sup>2) - su\<^sup>2\<bar> \<le> 6 * B \<and> 0 \<le> rnd (u\<^sup>2) \<and> su\<^sup>2 \<le> NN / 4"
    if u: "\<bar>u - su\<bar> \<le> 4 * N * e" "\<bar>su\<bar> \<le> N / 2" for u su
  proof -
    have "\<bar>u\<^sup>2 - su\<^sup>2\<bar> \<le> 4 * N * e * (2 * (N / 2) + 4 * N * e)" by (rule square_err[OF u])
    also have "\<dots> = 4 * B + 16 * (a * a)" unfolding a_def B_def by algebra
    also have "\<dots> \<le> 5 * B" using aa aB by linarith
    finally have 1: "\<bar>u\<^sup>2 - su\<^sup>2\<bar> \<le> 5 * B" .
    have "\<bar>su\<bar> * \<bar>su\<bar> \<le> (N / 2) * (N / 2)" using u(2) by (intro mult_mono) auto
    then have 2: "su\<^sup>2 \<le> NN / 4" by (simp add: power2_eq_square NN_def)
    have "0 \<le> su\<^sup>2" by simp
    with 2 NN B1 have "\<bar>su\<^sup>2\<bar> + 5 * B \<le> 2 ^ 21" by simp
    from rnd_step[OF F 1 this] ea aB have "\<bar>rnd (u\<^sup>2) - su\<^sup>2\<bar> \<le> 6 * B" by linarith
    moreover have "0 \<le> rnd (u\<^sup>2)" by (rule f64_nonneg[OF F]) simp
    ultimately show ?thesis using 2 by simp
  qed
  define P where "P = rnd (x\<^sup>2)"
  define Q where "Q = rnd (y\<^sup>2)"
  define A where "A = sx\<^sup>2 + sy\<^sup>2"
  define A' where "A' = rnd (P + Q)"
  note sx = sq[OF x, folded P_def]
  note sy = sq[OF y, folded Q_def]
  have P: "\<bar>P - sx\<^sup>2\<bar> \<le> 6 * B" "0 \<le> P" "sx\<^sup>2 \<le> NN / 4"
    using sx by blast+
  have Q: "\<bar>Q - sy\<^sup>2\<bar> \<le> 6 * B" "0 \<le> Q" "sy\<^sup>2 \<le> NN / 4"
    using sy by blast+
  have A: "0 \<le> A" "A \<le> NN / 2" using P(3) Q(3) by (simp_all add: A_def)
  have PQ: "\<bar>P + Q - A\<bar> \<le> 12 * B" using P(1) Q(1) unfolding A_def by linarith
  have "\<bar>A\<bar> + 12 * B \<le> 2 ^ 21" using A NN B1 by simp
  from rnd_step[OF F PQ this] ea aB have A'err: "\<bar>A' - A\<bar> \<le> 13 * B" unfolding A'_def by linarith
  have A'0: "0 \<le> A'" unfolding A'_def using P(2) Q(2) by (intro f64_nonneg[OF F]) simp
  have A'N: "A' \<le> N\<^sup>2" using A'err A B1 NN by (simp add: power2_eq_square NN_def)
  define s0 where "s0 = sqrt A'"
  have s0: "0 \<le> s0" "s0 \<le> N" using A'0 A'N N by (auto simp: s0_def intro: real_le_lsqrt)
  define S where "S = rnd s0"
  have S: "\<bar>S - s0\<bar> \<le> e" unfolding S_def using s0 N by (intro f64_rnd[OF F]) simp
  define c0 where "c0 = r / (N / 2)"
  have c0N: "N * \<bar>c0\<bar> = 2 * \<bar>r\<bar>" using N by (simp add: c0_def abs_divide field_simps)
  have c0: "\<bar>c0\<bar> \<le> 16"
  proof -
    have "1 * \<bar>c0\<bar> \<le> N * \<bar>c0\<bar>" using N by (intro mult_right_mono) auto
    with c0N r show ?thesis by simp
  qed
  define G where "G = s0 * c0"
  have G: "\<bar>G\<bar> \<le> 16"
  proof -
    have "s0 * \<bar>c0\<bar> \<le> N * \<bar>c0\<bar>" using s0 by (intro mult_right_mono) auto
    with c0N r s0 show ?thesis by (simp add: G_def abs_mult)
  qed
  have cb: "\<bar>c\<bar> \<le> 17" using c(1) c0 e unfolding c0_def[symmetric] by simp
  have "S * c - G = (S - s0) * c + s0 * (c - c0)" unfolding G_def by algebra
  moreover have "\<bar>(S - s0) * c + s0 * (c - c0)\<bar> \<le> \<bar>(S - s0) * c\<bar> + \<bar>s0 * (c - c0)\<bar>"
    by (rule abs_triangle_ineq)
  moreover have "\<bar>(S - s0) * c\<bar> \<le> e * 17"
    unfolding abs_mult using S cb by (intro mult_mono) auto
  moreover have "\<bar>s0 * (c - c0)\<bar> \<le> N * \<bar>c - c0\<bar>"
    unfolding abs_mult using s0 by (intro mult_right_mono) auto
  moreover have "(64 + N) * e \<le> 1088 * e" using N e0 by (intro mult_right_mono) auto
  ultimately have Sc: "\<bar>S * c - G\<bar> \<le> 1105 * e" using c(2) unfolding c0_def[symmetric] by linarith
  define g where "g = rnd (S * c)"
  have "\<bar>G\<bar> + 1105 * e \<le> 2 ^ 21" using G e by simp
  from rnd_step[OF F Sc this] have g: "\<bar>g - G\<bar> \<le> 1106 * e" unfolding g_def by simp
  have "\<bar>g\<^sup>2 - G\<^sup>2\<bar> \<le> 1106 * e * (2 * 16 + 1106 * e)" by (rule square_err[OF g G])
  also have "\<dots> \<le> 1106 * e * 33" using e e0 by (intro mult_left_mono) auto
  finally have g2: "\<bar>g\<^sup>2 - G\<^sup>2\<bar> \<le> 36498 * e" by simp
  have G2: "G\<^sup>2 \<le> 256"
  proof -
    have "\<bar>G\<bar> * \<bar>G\<bar> \<le> 16 * 16" using G by (intro mult_mono) auto
    then show ?thesis by (simp add: power2_eq_square)
  qed
  define q where "q = rnd (g\<^sup>2)"
  have "\<bar>G\<^sup>2\<bar> + 36498 * e \<le> 2 ^ 21" using G2 e by simp
  from rnd_step[OF F g2 this] have q: "\<bar>q - G\<^sup>2\<bar> \<le> 36499 * e" unfolding q_def by simp
  define d2 where "d2 = (sqrt A * c0)\<^sup>2"
  have d2: "d2 = A * c0\<^sup>2" using A by (simp add: d2_def power_mult_distrib)
  have G2': "G\<^sup>2 = A' * c0\<^sup>2" using A'0 by (simp add: G_def s0_def power_mult_distrib)
  have c02: "NN * c0\<^sup>2 = 4 * r\<^sup>2" using N by (simp add: c0_def NN_def power2_eq_square field_simps)
  have r2: "r\<^sup>2 \<le> 64"
  proof -
    have "\<bar>r\<bar> * \<bar>r\<bar> \<le> 8 * 8" using r by (intro mult_mono) auto
    then show ?thesis by (simp add: power2_eq_square)
  qed
  have Bc: "B * c0\<^sup>2 \<le> 256 * e"
  proof -
    have "B * c0\<^sup>2 = NN * c0\<^sup>2 * e" by (simp add: B_def NN_def)
    also have "\<dots> = 4 * r\<^sup>2 * e" by (simp add: c02)
    also have "\<dots> \<le> 4 * 64 * e" using r2 e0 by (intro mult_right_mono) auto
    finally show ?thesis by simp
  qed
  have "G\<^sup>2 - d2 = (A' - A) * c0\<^sup>2" unfolding d2 G2' by algebra
  then have "\<bar>G\<^sup>2 - d2\<bar> = \<bar>A' - A\<bar> * c0\<^sup>2" by (simp add: abs_mult)
  also have "\<dots> \<le> 13 * B * c0\<^sup>2" using A'err by (intro mult_right_mono) auto
  finally have Gd: "\<bar>G\<^sup>2 - d2\<bar> \<le> 3328 * e" using Bc by simp
  have d2b: "0 \<le> d2" "d2 \<le> 128"
  proof -
    show "0 \<le> d2" by (simp add: d2_def)
    have "A * c0\<^sup>2 \<le> NN / 2 * c0\<^sup>2" using A by (intro mult_right_mono) auto
    also have "\<dots> = 2 * r\<^sup>2" using c02 by simp
    finally show "d2 \<le> 128" using r2 unfolding d2 by simp
  qed
  define T0 where "T0 = - (1 / 2) * d2"
  have qT: "\<bar>- (1 / 2) * q - T0\<bar> \<le> 19914 * e" using q Gd e0 unfolding T0_def by linarith
  define t where "t = rnd (- (1 / 2) * q)"
  have T0: "T0 \<le> 0" "- 64 \<le> T0" using d2b by (simp_all add: T0_def)
  have "\<bar>T0\<bar> + 19914 * e \<le> 2 ^ 21" using T0 e by simp
  from rnd_step[OF F qT this] have t: "\<bar>t - T0\<bar> \<le> 19915 * e" unfolding t_def by simp
  have tb: "- (2 ^ 21) \<le> t" "t \<le> 1 / 2" using t T0 e by simp_all
  then have "t \<le> 1" by simp
  from f64_exp[OF F tb(1) this] have fe: "\<bar>fexp t - exp t\<bar> \<le> e" .
  have "\<bar>exp t - exp T0\<bar> \<le> 2 * \<bar>t - T0\<bar>" using tb(2) T0(1) by (intro exp_lip) auto
  with t have "\<bar>exp t - exp T0\<bar> \<le> 39830 * e" by simp
  with fe have p: "\<bar>fexp t - exp T0\<bar> \<le> 39831 * e" by linarith
  define E where "E = exp T0"
  have E: "0 \<le> E" "E \<le> 1" using T0 by (simp_all add: E_def)
  have p255: "\<bar>fexp t * 255 - 255 * exp T0\<bar> \<le> 10156905 * e" using p by linarith
  have "\<bar>255 * E\<bar> + 10156905 * e \<le> 2 ^ 21" using E e by simp
  then have "\<bar>255 * exp T0\<bar> + 10156905 * e \<le> 2 ^ 21" by (simp only: E_def)
  from rnd_step[OF F p255 this] have "\<bar>rnd (fexp t * 255) - 255 * exp T0\<bar> \<le> 10156906 * e" by simp
  moreover have "kernel_px rnd fexp c x y = rnd (fexp t * 255)"
    by (simp add: kernel_px_def t_def q_def g_def S_def s0_def A'_def P_def Q_def)
  moreover have "255 * exp (- (1 / 2) * (sqrt (sx\<^sup>2 + sy\<^sup>2) * (r / (N / 2)))\<^sup>2) = 255 * exp T0"
    by (simp add: T0_def d2_def A_def c0_def)
  ultimately show ?thesis using e0 by simp
qed


lemma scale_err:
  assumes F: "float64_like e rnd fexp" and e: "e \<le> 1 / 2 ^ 32"
    and N: "1 \<le> N" "N \<le> 1024" and r: "\<bar>r\<bar> \<le> 8"
  shows "rnd (N / 2) \<noteq> 0"
    and "\<bar>rnd (r / rnd (N / 2)) - r / (N / 2)\<bar> \<le> 65 * e"
    and "N * \<bar>rnd (r / rnd (N / 2)) - r / (N / 2)\<bar> \<le> (64 + N) * e"
proof -
  have e0: "0 \<le> e" by (rule f64_e_nonneg[OF F])
  define h where "h = rnd (N / 2)"
  define c0 where "c0 = r / (N / 2)"
  define z where "z = r / h - c0"
  have "\<bar>h - N / 2\<bar> \<le> e" unfolding h_def using N by (intro f64_rnd[OF F]) simp
  then have h: "\<bar>N / 2 - h\<bar> \<le> e" "N / 4 \<le> h" using e N by simp_all
  then have h0: "0 < h" using N by simp
  then show "rnd (N / 2) \<noteq> 0" by (simp add: h_def)
  have "z * (h * (N / 2)) = r * (N / 2 - h)" using h0 N by (simp add: z_def c0_def field_simps)
  then have "\<bar>z\<bar> * (h * (N / 2)) = \<bar>r\<bar> * \<bar>N / 2 - h\<bar>"
    using h0 N by (metis abs_mult abs_of_pos divide_pos_pos mult_pos_pos zero_less_numeral
        less_le_trans zero_less_one)
  also have "\<dots> \<le> 8 * e" using r h(1) by (intro mult_mono) auto
  finally have 1: "\<bar>z\<bar> * (h * (N / 2)) \<le> 8 * e" .
  have "(N / 4) * (N / 2) \<le> h * (N / 2)" using h(2) N by (intro mult_right_mono) auto
  then have "\<bar>z\<bar> * ((N / 4) * (N / 2)) \<le> \<bar>z\<bar> * (h * (N / 2))" by (intro mult_left_mono) auto
  with 1 have zNN: "N * N * \<bar>z\<bar> \<le> 64 * e" by simp
  have "1 * (N * \<bar>z\<bar>) \<le> N * (N * \<bar>z\<bar>)" using N by (intro mult_right_mono) auto
  with zNN have zN: "N * \<bar>z\<bar> \<le> 64 * e" by simp
  have "1 * \<bar>z\<bar> \<le> N * \<bar>z\<bar>" using N by (intro mult_right_mono) auto
  with zN have z: "\<bar>z\<bar> \<le> 64 * e" by simp
  have c0N: "N * \<bar>c0\<bar> = 2 * \<bar>r\<bar>" using N by (simp add: c0_def abs_divide field_simps)
  have "1 * \<bar>c0\<bar> \<le> N * \<bar>c0\<bar>" using N by (intro mult_right_mono) auto
  with c0N r have c0: "\<bar>c0\<bar> \<le> 16" by simp
  have "\<bar>r / h\<bar> \<le> 2 ^ 21" using z c0 e unfolding z_def by simp
  from f64_rnd[OF F this] have c: "\<bar>rnd (r / h) - r / h\<bar> \<le> e" .
  with z have "\<bar>rnd (r / h) - c0\<bar> \<le> 65 * e" unfolding z_def by linarith
  then show "\<bar>rnd (r / rnd (N / 2)) - r / (N / 2)\<bar> \<le> 65 * e" by (simp add: h_def c0_def)
  have "\<bar>rnd (r / h) - c0\<bar> \<le> e + \<bar>z\<bar>" using c unfolding z_def by linarith
  then have "N * \<bar>rnd (r / h) - c0\<bar> \<le> N * (e + \<bar>z\<bar>)" using N by (intro mult_left_mono) auto
  also have "\<dots> = N * e + N * \<bar>z\<bar>" by algebra
  also have "\<dots> \<le> N * e + 64 * e" using zN by simp
  also have "\<dots> = (64 + N) * e" by algebra
  finally show "N * \<bar>rnd (r / rnd (N / 2)) - r / (N / 2)\<bar> \<le> (64 + N) * e"
    by (simp add: h_def c0_def)
qed

lemma kernel_structure:
  assumes "rnd (real n / 2) \<noteq> 0"
  shows "get_gaussian_heatmap rnd fexp (int n) r =
     (let v = map abs (linspace rnd (rnd (- real n / 2)) (rnd (real n / 2)) n);
          c = rnd (r / rnd (real n / 2))
      in Inr (map (\<lambda>y. map (\<lambda>x. astype_uint8 (clip 0 255 (kernel_px rnd fexp c x y))) v) v))"
  using assms
  unfolding get_gaussian_heatmap_def
  by (simp add: meshgrid_def map_plane_def zip_plane_def Let_def
      zip_map_map zip_same_conv_map o_def kernel_px_def)


lemma kernel_closed_form:
  assumes "rnd (real n / 2) \<noteq> 0"
  shows "get_gaussian_heatmap rnd fexp (int n) r =
     Inr (map (\<lambda>i. map (\<lambda>j. astype_uint8 (clip 0 255 (kernel_value rnd fexp n r i j))) [0..<n])
            [0..<n])"
proof -
  define v where "v = map abs (linspace rnd (rnd (- real n / 2)) (rnd (real n / 2)) n)"
  define f where "f = (\<lambda>x y. astype_uint8 (clip 0 255
     (kernel_px rnd fexp (rnd (r / rnd (real n / 2))) x y)))"
  have len: "length v = n" by (simp add: v_def linspace_length)
  have 1: "map (\<lambda>y. map (\<lambda>x. f x y) v) v = map (\<lambda>i. map (\<lambda>j. f (v ! j) (v ! i)) [0..<n]) [0..<n]"
    by (rule nth_equalityI) (auto simp: len intro!: nth_equalityI)
  have "get_gaussian_heatmap rnd fexp (int n) r = Inr (map (\<lambda>y. map (\<lambda>x. f x y) v) v)"
    unfolding kernel_structure[where rnd = rnd and n = n, OF assms] Let_def v_def f_def ..
  also have "\<dots> = Inr (map (\<lambda>i. map (\<lambda>j. f (v ! j) (v ! i)) [0..<n]) [0..<n])"
    by (simp only: 1)
  also have "\<dots> = Inr (map (\<lambda>i. map (\<lambda>j. astype_uint8 (clip 0 255 (kernel_value rnd fexp n r i j)))
      [0..<n]) [0..<n])"
    unfolding kernel_value_def Let_def v_def f_def ..
  finally show ?thesis .
qed

lemma sample_coord_bound:
  assumes "1 \<le> n" "k < n"
  shows "\<bar>sample_coord n k\<bar> \<le> real n / 2"
proof (cases "n = 1")
  case True
  then show ?thesis by (simp add: sample_coord_def)
next
  case False
  define N where "N = real n"
  define m where "m = real (n - 1)"
  define K where "K = real k"
  from False assms have m: "m = N - 1" "1 \<le> m" "0 \<le> K" "K \<le> m"
    by (simp_all add: m_def N_def K_def)
  define Q where "Q = K * (N / m)"
  have "Q \<le> m * (N / m)" unfolding Q_def using m by (intro mult_right_mono) auto
  then have "Q \<le> N" using m by simp
  moreover have "0 \<le> Q" unfolding Q_def using m by simp
  moreover have "sample_coord n k = - N / 2 + Q"
    using False by (simp add: sample_coord_def N_def m_def K_def Q_def)
  ultimately show ?thesis unfolding N_def[symmetric] by linarith
qed

lemma kernel_value_err:
  assumes F: "float64_like e rnd fexp" and e: "e \<le> 1 / 2 ^ 32"
    and n: "1 \<le> n" "n \<le> 1024" and r: "\<bar>r\<bar> \<le> 8" and ij: "i < n" "j < n"
  shows "\<bar>kernel_value rnd fexp n r i j - gauss_px n r i j\<bar> \<le> 2 ^ 24 * e"
proof -
  define N where "N = real n"
  have N: "1 \<le> N" "N \<le> 1024" using n by (simp_all add: N_def)
  define l where "l = linspace rnd (rnd (- real n / 2)) (rnd (real n / 2)) n"
  have a: "\<bar>rnd (- real n / 2) - (- real n / 2)\<bar> \<le> e"
    using n by (intro f64_rnd[OF F]) simp
  have b: "\<bar>rnd (real n / 2) - real n / 2\<bar> \<le> e"
    using n by (intro f64_rnd[OF F]) simp
  have co: "\<bar>\<bar>l ! k\<bar> - \<bar>sample_coord n k\<bar>\<bar> \<le> 4 * N * e \<and> \<bar>\<bar>sample_coord n k\<bar>\<bar> \<le> N / 2"
    if "k < n" for k
    using linspace_err[OF F e n that a b] sample_coord_bound[OF n(1) that]
    unfolding l_def N_def by linarith
  note c = scale_err[OF F e N r]
  have kv: "kernel_value rnd fexp n r i j
      = kernel_px rnd fexp (rnd (r / rnd (N / 2))) \<bar>l ! j\<bar> \<bar>l ! i\<bar>"
    unfolding kernel_value_def Let_def l_def N_def
    using ij by (simp only: nth_map linspace_length)
  have gp: "gauss_px n r i j
      = 255 * exp (- (1 / 2) * (sqrt (\<bar>sample_coord n j\<bar>\<^sup>2 + \<bar>sample_coord n i\<bar>\<^sup>2) * (r / (N / 2)))\<^sup>2)"
    unfolding gauss_px_def scaled_distance_def N_def power2_abs ..
  show ?thesis
    unfolding kv gp
    using co[OF ij(2)] co[OF ij(1)] by (intro kernel_px_err[OF F e N r _ _ _ _ c(2,3)]) auto
qed

lemma gauss_px_bounds: "0 < gauss_px n r i j" "gauss_px n r i j \<le> 255"
  by (simp_all add: gauss_px_def)

lemma uint8_clip:
  "astype_uint8 (clip 0 255 w) = word_of_int \<lfloor>clip 0 255 w\<rfloor>"
  "0 \<le> \<lfloor>clip 0 255 w\<rfloor>" "\<lfloor>clip 0 255 w\<rfloor> \<le> 255"
  by (simp_all add: astype_uint8_def clip_def trunc_def le_floor_iff floor_le_iff)

lemma clip_err: "\<bar>clip 0 255 w - v\<bar> \<le> \<bar>w - v\<bar>" if "0 \<le> v" "v \<le> 255"
  using that by (simp add: clip_def)

lemma float64_like_fixed40: "float64_like (1 / 2 ^ 41) fixed40 exp40"
proof -
  have 1: "\<bar>fixed40 x - x\<bar> \<le> 1 / 2 ^ 41" for x
  proof -
    define d where "d = real_of_int (round (x * 2 ^ 40)) - x * 2 ^ 40"
    define p where "p = (2::real) ^ 40"
    have p: "0 < p" by (simp add: p_def)
    have "\<bar>d\<bar> \<le> 1 / 2" unfolding d_def by (rule of_int_round_abs_le)
    then have "\<bar>d\<bar> / p \<le> (1 / 2) / p" using p by (intro divide_right_mono) auto
    moreover have "\<bar>d / p\<bar> = \<bar>d\<bar> / p" using p by (simp add: abs_divide)
    moreover have "(1 / 2) / p = 1 / 2 ^ 41" by (simp add: p_def)
    moreover have "fixed40 x - x = d / p"
      by (simp add: fixed40_def d_def p_def diff_divide_distrib)
    ultimately show ?thesis by (simp only:)
  qed
  have 2: "0 \<le> fixed40 x" if "0 \<le> x" for x
    using that by (simp add: fixed40_def round_def)
  show ?thesis unfolding float64_like_def exp40_def using 1 2 by blast
qed


lemma clip_bounds: "0 \<le> clip 0 255 w" "clip 0 255 w \<le> 255"
  by (simp_all add: clip_def)

lemma kernel_pixel:
  assumes F: "float64_like e rnd fexp" and e: "e \<le> 1 / 2 ^ 32"
    and n: "1 \<le> n" "n \<le> 1024" and r: "\<bar>r\<bar> \<le> 8" and ij: "i < n" "j < n"
    and m: "real_of_int m \<le> gauss_px n r i j - 2 ^ 24 * e"
      "gauss_px n r i j + 2 ^ 24 * e < real_of_int m + 1"
  shows "astype_uint8 (clip 0 255 (kernel_value rnd fexp n r i j)) = word_of_int m"
proof -
  define w where "w = clip 0 255 (kernel_value rnd fexp n r i j)"
  have "\<bar>w - gauss_px n r i j\<bar> \<le> \<bar>kernel_value rnd fexp n r i j - gauss_px n r i j\<bar>"
    unfolding w_def using gauss_px_bounds[of n r i j] by (intro clip_err) auto
  with kernel_value_err[OF F e n r ij] have "\<bar>w - gauss_px n r i j\<bar> \<le> 2 ^ 24 * e" by linarith
  with m have "real_of_int m \<le> w" "w < real_of_int m + 1" by linarith+
  then have "\<lfloor>w\<rfloor> = m" by (intro floor_unique)
  then show ?thesis using uint8_clip(1)[of "kernel_value rnd fexp n r i j"] by (simp add: w_def)
qed

lemma exp_neg_bounds: "1 - x \<le> exp (- x)" "exp (- x) \<le> 1 / (1 + x)" if "0 \<le> x" for x :: real
proof -
  have "1 + (- x) \<le> exp (- x)" by (rule exp_ge_add_one_self)
  then show "1 - x \<le> exp (- x)" by simp
  have "1 + x \<le> exp x" by (rule exp_ge_add_one_self)
  then have "1 / exp x \<le> 1 / (1 + x)" using that by (intro divide_left_mono) auto
  then show "exp (- x) \<le> 1 / (1 + x)" by (simp add: exp_minus inverse_eq_divide)
qed

lemma sample_coord_2: "(sample_coord 2 k)\<^sup>2 = 1" if "k < 2"
proof -
  from that have "k = 0 \<or> k = 1" by auto
  then show ?thesis by (auto simp: sample_coord_def)
qed

lemma gauss_px_2: "gauss_px 2 (1/32) i j = 255 * exp (- (1/1024))" if "i < 2" "j < 2"
proof -
  have "(scaled_distance 2 (1/32) i j)\<^sup>2 = 1/512"
    using that by (simp add: scaled_distance_def sample_coord_2 power_mult_distrib power_divide)
  then show ?thesis by (simp add: gauss_px_def)
qed

lemma kernel_size_2:
  assumes F: "float64_like e rnd fexp" and e: "e \<le> 1 / 2 ^ 32"
  shows "get_gaussian_heatmap rnd fexp 2 (1/32) = Inr [[254, 254], [254, 254]]"
proof -
  have e0: "0 \<le> e" by (rule f64_e_nonneg[OF F])
  have h: "rnd (real 2 / 2) \<noteq> 0" by (rule scale_err(1)[OF F e, of _ 0]) simp_all
  have b: "1 - 1/1024 \<le> exp (- (1/1024 :: real))" "exp (- (1/1024 :: real)) \<le> 1 / (1 + 1/1024)"
    by (rule exp_neg_bounds; simp)+
  have px: "astype_uint8 (clip 0 255 (kernel_value rnd fexp 2 (1/32) i j)) = 254"
    if "i < 2" "j < 2" for i j
  proof -
    have "astype_uint8 (clip 0 255 (kernel_value rnd fexp 2 (1/32) i j)) = word_of_int 254"
      using that b e e0 by (intro kernel_pixel[OF F e]) (simp_all add: gauss_px_2)
    then show ?thesis by simp
  qed
  have up: "[0..<2] = [0, 1]" by (simp add: upt_rec)
  have "get_gaussian_heatmap rnd fexp (int 2) (1/32) = Inr [[254, 254], [254, 254]]"
    unfolding kernel_closed_form[where rnd = rnd and n = 2, OF h] up
    by (simp add: px)
  then show ?thesis by simp
qed


lemma sample_coord_3: "sample_coord 3 0 = - 3/2" "sample_coord 3 (Suc 0) = 0"
  by (simp_all add: sample_coord_def)

lemma gauss_px_3: "gauss_px 3 (3/16) 0 (Suc 0) = 255 * exp (- (9/512))"
proof -
  have "(scaled_distance 3 (3/16) 0 (Suc 0))\<^sup>2 = 9/256"
    by (simp add: scaled_distance_def sample_coord_3 power_mult_distrib power2_eq_square)
  then show ?thesis by (simp add: gauss_px_def)
qed

lemma gauss_px_3_bounds:
  "250 + 1/2 \<le> 255 * exp (- (9/512 :: real))" "255 * exp (- (9/512 :: real)) \<le> 250 + 3/5"
proof -
  have b: "1 - 9/512 \<le> exp (- (9/512 :: real))" "exp (- (9/512 :: real)) \<le> 1 / (1 + 9/512)"
    by (rule exp_neg_bounds; simp)+
  from b(1) show "250 + 1/2 \<le> 255 * exp (- (9/512 :: real))" by simp
  from b(2) show "255 * exp (- (9/512 :: real)) \<le> 250 + 3/5" by simp
qed

text \<open>
  The coordinates are not those of an integer grid: with \<open>size = 3\<close> the samples are
  \<open>-1.5, 0, 1.5\<close>, and at \<open>distanceRatio = 3/16\<close> the pixel in row 0 and column 1 is
  250 (\<open>255 * exp (- 9/512) = 250.55...\<close> with the fraction dropped), while the formula
  of the specification gives 253 there, rounded or with the fraction dropped.
\<close>

lemma kernel_grid_is_linspace:
  assumes F: "float64_like e rnd fexp" and e: "e \<le> 1 / 2 ^ 32"
  shows "\<exists>K. get_gaussian_heatmap rnd fexp 3 (3/16) = Inr K \<and> K ! 0 ! 1 = 250 \<and>
       \<lfloor>255 * exp (- (1 / 2) * (spec_distance 3 (3/16) 0 1)\<^sup>2)\<rfloor> = 253 \<and>
       spec_intensity (spec_distance 3 (3/16) 0 1) = 253"
proof -
  have e0: "0 \<le> e" by (rule f64_e_nonneg[OF F])
  have h: "rnd (real 3 / 2) \<noteq> 0" by (rule scale_err(1)[OF F e, of _ 0]) simp_all
  have "astype_uint8 (clip 0 255 (kernel_value rnd fexp 3 (3/16) 0 (Suc 0))) = word_of_int 250"
    using gauss_px_3_bounds e e0 by (intro kernel_pixel[OF F e]) (simp_all add: gauss_px_3)
  then have px: "astype_uint8 (clip 0 255 (kernel_value rnd fexp 3 (3/16) 0 (Suc 0))) = 250"
    by simp
  have up: "[0..<3] = [0, 1, 2]" by (simp add: upt_rec)
  have "\<exists>K. get_gaussian_heatmap rnd fexp (int 3) (3/16) = Inr K \<and> K ! 0 ! 1 = 250"
    unfolding kernel_closed_form[where rnd = rnd and n = 3, OF h] up
    by (simp add: px)
  then have code: "\<exists>K. get_gaussian_heatmap rnd fexp 3 (3/16) = Inr K \<and> K ! 0 ! 1 = 250" by simp
  have d: "255 * exp (- (1 / 2) * (spec_distance 3 (3/16) 0 1)\<^sup>2) = 255 * exp (- (1/128))"
    by (simp add: spec_distance_def power2_eq_square)
  have b: "1 - 1/128 \<le> exp (- (1/128 :: real))" "exp (- (1/128 :: real)) \<le> 1 / (1 + 1/128)"
    by (rule exp_neg_bounds; simp)+
  have v: "253 \<le> 255 * exp (- (1/128 :: real))" "255 * exp (- (1/128 :: real)) < 253 + 1/2"
    using b by simp_all
  have fl: "\<lfloor>255 * exp (- (1/128 :: real))\<rfloor> = 253" using v by linarith
  have rd: "round (255 * exp (- (1/128 :: real))) = 253" unfolding round_def using v by linarith
  have "spec_intensity (spec_distance 3 (3/16) 0 1) = 253"
    unfolding spec_intensity_def d rd by simp
  with code fl show ?thesis unfolding d by blast
qed

text \<open>
  C3 (as stated, refuted): with \<open>size = 2\<close> and \<open>distanceRatio = 1/32\<close> every pixel of
  the kernel is 254, because the conversion to uint8 drops the fraction of
  \<open>255 * exp (- 1/1024) = 254.75...\<close>; the rounded intensity of the specification is
  255. By \<open>kernel_size_2\<close> the kernel is this one under every rounding within \<open>2^-32\<close>,
  that of float64 among them; the statement takes the rounding to the multiples of
  \<open>2^-40\<close>. At this ratio the rounded intensity is 255 at every distance up to the
  corner's, so the difference does not depend on how the grid coordinates are read;
  \<open>kernel_grid_is_linspace\<close> shows that the coordinates differ as well.
\<close>

theorem kernel_differs_from_rounded_spec:
  "get_gaussian_heatmap fixed40 exp40 2 (1/32) = Inr [[254, 254], [254, 254]] \<and>
   makeGaussianKernel_spec 2 (1/32) ! 0 ! 0 = 255 \<and>
   get_gaussian_heatmap fixed40 exp40 2 (1/32) \<noteq> Inr (makeGaussianKernel_spec 2 (1/32))"
proof -
  have up: "[0..<2] = [0, 1]" by (simp add: upt_rec)
  have code: "get_gaussian_heatmap fixed40 exp40 2 (1/32) = Inr [[254, 254], [254, 254]]"
    by (rule kernel_size_2[OF float64_like_fixed40]) simp
  have d: "(spec_distance 2 (1/32) 0 0)\<^sup>2 = 1/512"
    by (simp add: spec_distance_def power_mult_distrib power_divide)
  have b: "1 - 1/1024 \<le> exp (- (1/1024 :: real))" "exp (- (1/1024 :: real)) \<le> 1"
    by (rule exp_neg_bounds; simp)+ simp
  have "round (255 * exp (- (1/1024::real))) = 255"
    unfolding round_def using b by linarith
  then have "spec_intensity (spec_distance 2 (1/32) 0 0) = 255"
    by (simp add: spec_intensity_def d)
  then have spec: "makeGaussianKernel_spec 2 (1/32) ! 0 ! 0 = 255"
    by (simp add: makeGaussianKernel_spec_def up)
  have "makeGaussianKernel_spec 2 (1/32) \<noteq> [[254, 254], [254, 254]]"
  proof
    assume "makeGaussianKernel_spec 2 (1/32) = [[254, 254], [254, 254]]"
    with spec have "([[254, 254], [254, 254]] :: 8 word list list) ! 0 ! 0 = 255" by simp
    then show False by simp
  qed
  with code spec show ?thesis by auto
qed

text \<open>
  C3 (amended): for \<open>1 \<le> size \<le> 1024\<close> and \<open>\<bar>distanceRatio\<bar> \<le> 8\<close>, computed with a
  rounding and an exponential that are within \<open>e \<le> 2^-32\<close> (those of float64 are), the
  kernel is a \<open>size\<close> by \<open>size\<close> array whose pixel \<open>(i, j)\<close> is \<open>w\<close> with the fraction
  dropped, for a number \<open>w\<close> in \<open>[0, 255]\<close> within \<open>2^24 * e\<close> (at most \<open>1/256\<close>) of
  \<open>255 * exp (- d\<^sup>2 / 2)\<close>, where \<open>d\<close> is the distance from the centre of the point whose
  coordinates are the \<open>j\<close>-th and \<open>i\<close>-th of \<open>size\<close> evenly spaced values from
  \<open>- size / 2\<close> to \<open>size / 2\<close>, scaled by \<open>distanceRatio / (size / 2)\<close>. With \<open>e = 0\<close>
  the pixel is \<open>255 * exp (- d\<^sup>2 / 2)\<close> with the fraction dropped.
\<close>

theorem kernel_truncated_intensity:
  assumes "float64_like e rnd fexp" and "e \<le> 1 / 2 ^ 32"
    and "1 \<le> n" and "n \<le> 1024" and "\<bar>r\<bar> \<le> 8"
  shows "\<exists>K. get_gaussian_heatmap rnd fexp (int n) r = Inr K \<and> length K = n \<and>
     (\<forall>i<n. length (K ! i) = n \<and>
        (\<forall>j<n. \<exists>w. \<bar>w - 255 * exp (- (1 / 2) * (scaled_distance n r i j)\<^sup>2)\<bar> \<le> 2 ^ 24 * e \<and>
           0 \<le> w \<and> w \<le> 255 \<and> K ! i ! j = word_of_int \<lfloor>w\<rfloor>))"
proof -
  define N where "N = real n"
  have N: "1 \<le> N" "N \<le> 1024" using assms(3,4) by (simp_all add: N_def)
  have h: "rnd (real n / 2) \<noteq> 0"
    using scale_err(1)[OF assms(1,2) N, of 0] by (simp add: N_def)
  have px: "\<exists>w. \<bar>w - 255 * exp (- (1 / 2) * (scaled_distance n r i j)\<^sup>2)\<bar> \<le> 2 ^ 24 * e \<and>
      0 \<le> w \<and> w \<le> 255 \<and>
      astype_uint8 (clip 0 255 (kernel_value rnd fexp n r i j)) = word_of_int \<lfloor>w\<rfloor>"
    if ij: "i < n" "j < n" for i j
  proof -
    define w where "w = clip 0 255 (kernel_value rnd fexp n r i j)"
    have "\<bar>w - gauss_px n r i j\<bar> \<le> \<bar>kernel_value rnd fexp n r i j - gauss_px n r i j\<bar>"
      unfolding w_def using gauss_px_bounds[of n r i j] by (intro clip_err) auto
    with kernel_value_err[OF assms ij] have "\<bar>w - gauss_px n r i j\<bar> \<le> 2 ^ 24 * e" by linarith
    then have "\<bar>w - 255 * exp (- (1 / 2) * (scaled_distance n r i j)\<^sup>2)\<bar> \<le> 2 ^ 24 * e"
      by (simp only: gauss_px_def)
    moreover have "0 \<le> w" "w \<le> 255" unfolding w_def by (rule clip_bounds)+
    moreover have "astype_uint8 (clip 0 255 (kernel_value rnd fexp n r i j)) = word_of_int \<lfloor>w\<rfloor>"
      unfolding w_def by (rule uint8_clip(1))
    ultimately show ?thesis by blast
  qed
  show ?thesis
    unfolding kernel_closed_form[where rnd = rnd and n = n, OF h]
    using px by simp
qed

theorem kernel_truncated_intensity_witness:
  "float64_like (1 / 2 ^ 41) fixed40 exp40 \<and> (1 / 2 ^ 41 :: real) \<le> 1 / 2 ^ 32 \<and>
   (1::nat) \<le> 3 \<and> (3::nat) \<le> 1024 \<and> \<bar>3/16 :: real\<bar> \<le> 8 \<and>
   (\<exists>K. get_gaussian_heatmap fixed40 exp40 (int 3) (3/16) = Inr K \<and> length K = 3 \<and>
        length (K ! 0) = 3 \<and> K ! 0 ! 1 = 250)"
proof -
  obtain K where K: "get_gaussian_heatmap fixed40 exp40 (int 3) (3/16) = Inr K" "length K = 3"
    and px: "\<forall>i<3. length (K ! i) = 3 \<and>
        (\<forall>j<3. \<exists>w. \<bar>w - 255 * exp (- (1 / 2) * (scaled_distance 3 (3/16) i j)\<^sup>2)\<bar>
              \<le> 2 ^ 24 * (1 / 2 ^ 41) \<and>
           0 \<le> w \<and> w \<le> 255 \<and> K ! i ! j = word_of_int \<lfloor>w\<rfloor>)"
    using kernel_truncated_intensity [OF float64_like_fixed40, of 3 "3/16"] by auto
  from px have len: "length (K ! 0) = 3" by simp
  from px have "\<exists>w. \<bar>w - 255 * exp (- (1 / 2) * (scaled_distance 3 (3/16) 0 (Suc 0))\<^sup>2)\<bar>
        \<le> 2 ^ 24 * (1 / 2 ^ 41) \<and> 0 \<le> w \<and> w \<le> 255 \<and> K ! 0 ! Suc 0 = word_of_int \<lfloor>w\<rfloor>"
    by simp
  then obtain w where w: "\<bar>w - gauss_px 3 (3/16) 0 (Suc 0)\<bar> \<le> 2 ^ 24 * (1 / 2 ^ 41)"
    "K ! 0 ! Suc 0 = word_of_int \<lfloor>w\<rfloor>"
    unfolding gauss_px_def by blast
  have "(2::real) ^ 24 * (1 / 2 ^ 41) = 1 / 131072" by simp
  with w(1) gauss_px_3_bounds have "250 \<le> w" "w < 251" unfolding gauss_px_3 by linarith+
  then have "\<lfloor>w\<rfloor> = 250" by linarith
  with w(2) have "K ! 0 ! 1 = 250" by simp
  with K len float64_like_fixed40 show ?thesis by simp
qed

section \<open>Properties of compute\_maps\<close>

lemma warp_into_error: "warp_into cv k src sh dst m = Inl e \<Longrightarrow> lib_error e"
  by (auto simp: warp_into_def iadd_plane_def lib_error_def split: prod.splits option.splits if_splits)

lemma char_step_error: "char_step cv k src sh st q = Inl e \<Longrightarrow> lib_error e"
  unfolding char_step_def
  by (auto simp: bind_e_eq_Inl Let_def split: prod.splits if_splits option.splits
      dest: warp_into_error)

lemma line_loop_error: "line_loop cv k src sh st line = Inl e \<Longrightarrow> lib_error e"
  by (induction line arbitrary: st) (auto simp: bind_e_eq_Inl dest: char_step_error)

lemma lines_loop_error: "lines_loop cv k src sh maps lines = Inl e \<Longrightarrow> lib_error e"
  by (induction lines arbitrary: maps) (auto simp: bind_e_eq_Inl dest: line_loop_error)

lemma compute_maps_even:
  assumes "even h" "even w"
  shows "compute_maps cv k h w ls \<noteq> Inl (AssertionError msg)"
proof
  assume a: "compute_maps cv k h w ls = Inl (AssertionError msg)"
  from assms have "h mod 2 = 0" "w mod 2 = 0" by presburger+
  with a have "lib_error (AssertionError msg)"
    unfolding compute_maps_def
    by (auto simp: Let_def bind_e_eq_Inl lib_error_def split: if_splits dest: lines_loop_error)
  then show False by (simp add: lib_error_def)
qed

lemma compute_maps_odd:
  assumes "odd h \<or> odd w"
  shows "\<exists>msg. compute_maps cv k h w ls = Inl (AssertionError msg)"
proof -
  from assms have "h mod 2 \<noteq> 0 \<or> w mod 2 \<noteq> 0" by presburger
  then show ?thesis unfolding compute_maps_def by auto
qed

lemma has_shape_ncols: "has_shape a h w \<Longrightarrow> 0 < h \<Longrightarrow> nrows a = h \<and> ncols a = w"
  by (cases a) (auto simp: has_shape_def nrows_def ncols_def)

lemma iadd_plane_shape: "iadd_plane h w a b = Inr m \<Longrightarrow> has_shape m h w"
  by (auto simp: iadd_plane_def has_shape_def split: if_splits)

lemma warp_into_returns:
  assumes "warp_contract cv" "0 < h" "0 < w"
  shows "\<exists>m'. warp_into cv k src (h, w) dst m = Inr m' \<and> has_shape m' h w"
proof -
  obtain img where img: "warpPerspective cv k (getPerspectiveTransform cv src dst) (w, h) = Some img"
    "has_shape img h w"
    using assms unfolding warp_contract_def by blast
  have "has_shape (map_plane uint8_value img) h w"
    using img(2) by (auto simp: has_shape_def map_plane_def)
  then have "broadcastable (map_plane uint8_value img) h w"
    using has_shape_ncols[of _ h w] assms(2) by (auto simp: broadcastable_def)
  then obtain m' where "iadd_plane h w m (map_plane uint8_value img) = Inr m'"
    by (auto simp: iadd_plane_def)
  then show ?thesis using img(1) iadd_plane_shape by (auto simp: warp_into_def)
qed

lemma char_step_returns:
  assumes "warp_contract cv" "0 < h" "0 < w" "has_shape t h w" "has_shape l h w"
  shows "\<exists>t' l' p'. char_step cv k src (h, w) (t, l, p) q = Inr (t', l', p')
     \<and> has_shape t' h w \<and> has_shape l' h w"
proof -
  obtain x1 y1 x2 y2 x3 y3 x4 y4 c where q: "q = (x1, y1, x2, y2, x3, y3, x4, y4, c)"
    by (cases q) auto
  show ?thesis
  proof (cases "c = '' ''")
    case True
    then show ?thesis using assms by (simp add: char_step_def q)
  next
    case False
    have "\<exists>l'. (case p of None \<Rightarrow> Inr l
                  | Some prev \<Rightarrow> warp_into cv k src (h, w)
                      [fst prev, fst (current_link_points_of q), snd (current_link_points_of q),
                       snd prev] l) = Inr l' \<and> has_shape l' h w"
      using assms(5) warp_into_returns[OF assms(1-3)] by (cases p) auto
    then obtain l' where l': "(case p of None \<Rightarrow> Inr l
                  | Some prev \<Rightarrow> warp_into cv k src (h, w)
                      [fst prev, fst (current_link_points_of q), snd (current_link_points_of q),
                       snd prev] l) = Inr l'" "has_shape l' h w"
      by blast
    obtain t' where t': "warp_into cv k src (h, w) (character_points_of q) t = Inr t'"
      "has_shape t' h w"
      using warp_into_returns[OF assms(1-3)] by blast
    show ?thesis
      using False l'[unfolded q] t'[unfolded q]
      by (simp add: char_step_def q Let_def)
  qed
qed

lemma line_loop_returns:
  assumes "warp_contract cv" "0 < h" "0 < w"
  shows "has_shape t h w \<Longrightarrow> has_shape l h w \<Longrightarrow>
     \<exists>t' l' p'. line_loop cv k src (h, w) (t, l, p) line = Inr (t', l', p')
       \<and> has_shape t' h w \<and> has_shape l' h w"
proof (induction line arbitrary: t l p)
  case Nil
  then show ?case by simp
next
  case (Cons q line)
  from char_step_returns[OF assms Cons.prems, of k src p q]
  obtain t1 l1 p1 where s: "char_step cv k src (h, w) (t, l, p) q = Inr (t1, l1, p1)"
    "has_shape t1 h w" "has_shape l1 h w" by blast
  from Cons.IH[OF s(2,3), of p1] show ?case using s(1) by simp
qed

lemma lines_loop_returns:
  assumes "warp_contract cv" "0 < h" "0 < w"
  shows "has_shape t h w \<Longrightarrow> has_shape l h w \<Longrightarrow>
     \<exists>t' l'. lines_loop cv k src (h, w) (t, l) lines = Inr (t', l')
       \<and> has_shape t' h w \<and> has_shape l' h w"
proof (induction lines arbitrary: t l)
  case Nil
  then show ?case by simp
next
  case (Cons line lines)
  from line_loop_returns[OF assms Cons.prems, of k src None line]
  obtain t1 l1 p1 where s: "line_loop cv k src (h, w) (t, l, None) line = Inr (t1, l1, p1)"
    "has_shape t1 h w" "has_shape l1 h w" by blast
  from Cons.IH[OF s(2,3)] show ?case using s(1) by simp
qed

lemma zeros_shape: "has_shape (zeros h w) h w"
  by (simp add: zeros_def has_shape_def)

lemma stacked_shape:
  assumes "has_shape t h w" "has_shape l h w"
  shows "has_shape (map_plane f (zip_plane Pair t l)) h w"
proof -
  have "\<forall>rs \<in> set (zip t l). length (fst rs) = w \<and> length (snd rs) = w"
    using assms by (auto simp: has_shape_def dest: set_zip_leftD set_zip_rightD)
  then show ?thesis using assms
    by (auto simp: has_shape_def map_plane_def zip_plane_def)
qed

lemma compute_maps_returns:
  assumes "warp_contract cv" "even h" "even w" "2 \<le> h" "2 \<le> w"
  shows "\<exists>m. compute_maps cv k h w ls = Inr m \<and> has_shape m (nat (h div 2)) (nat (w div 2))"
proof -
  have pos: "0 < nat (h div 2)" "0 < nat (w div 2)" using assms by auto
  have ev: "h mod 2 = 0" "w mod 2 = 0" "\<not> h div 2 < 0" "\<not> w div 2 < 0"
    using assms by presburger+
  obtain t l where tl: "lines_loop cv k
      [(0, 0), (real (ncols k), 0), (real (ncols k), real (nrows k)), (0, real (nrows k))]
      (nat (h div 2), nat (w div 2))
      (zeros (nat (h div 2)) (nat (w div 2)), zeros (nat (h div 2)) (nat (w div 2))) ls = Inr (t, l)"
    "has_shape t (nat (h div 2)) (nat (w div 2))" "has_shape l (nat (h div 2)) (nat (w div 2))"
    using lines_loop_returns[OF assms(1) pos zeros_shape zeros_shape] by blast
  show ?thesis
    unfolding compute_maps_def using ev tl(1) stacked_shape[OF tl(2,3)]
    by (simp add: Let_def)
qed

lemma cv_flat_contract: "warp_contract (cv_flat v)"
  by (simp add: warp_contract_def cv_flat_def has_shape_def)

lemma clip_unit: "in_unit_interval (clip 0 255 a / 255)"
  by (auto simp: in_unit_interval_def clip_def min_def max_def)

lemma char_step_same_box:
  assumes "same_box q q'"
  shows "char_step cv k src sh st q = char_step cv k src sh st q'"
  using assms unfolding char_step_def same_box_def current_link_points_of_def
    character_points_of_def
  by (auto split: prod.splits)

lemma line_loop_same_box:
  "list_all2 same_box line line' \<Longrightarrow>
   line_loop cv k src sh st line = line_loop cv k src sh st line'"
proof (induction line line' arbitrary: st rule: list_all2_induct)
  case Nil
  then show ?case by simp
next
  case (Cons q line q' line')
  then show ?case by (simp add: char_step_same_box[of q q'])
qed

lemma lines_loop_same_box:
  "list_all2 (list_all2 same_box) lines lines' \<Longrightarrow>
   lines_loop cv k src sh maps lines = lines_loop cv k src sh maps lines'"
proof (induction lines lines' arbitrary: maps rule: list_all2_induct)
  case Nil
  then show ?case by simp
next
  case (Cons line lines line' lines')
  then show ?case by (simp add: line_loop_same_box[of line line'])
qed

lemma compute_maps_example:
  "compute_maps (cv_flat 51) [[255]] 2 2
     [[(0, 0, 2, 0, 2, 2, 0, 2, ''a''), (2, 0, 4, 0, 4, 2, 2, 2, ''b'')]] = Inr [[(2/5, 1/5)]]"
  by (simp add: compute_maps_def char_step_def warp_into_def iadd_plane_def broadcastable_def
      broadcast_at_def
      cv_flat_def zeros_def nrows_def ncols_def map_plane_def zip_plane_def uint8_value_def
      clip_def Let_def current_link_points_of_def character_points_of_def)

subsection \<open>The claims about compute\_maps\<close>

text \<open>
  C4: \<open>compute_maps\<close> fails with the AssertionError of its two \<open>assert\<close> statements
  exactly when the height or the width is odd. No odd dimension is rounded: the halved
  sizes are only computed once both are known to be even, and for even dimensions of at
  least 2, with an OpenCV that keeps its promise, the call returns maps of exactly half
  the height and half the width.
\<close>

theorem compute_maps_assertion_iff:
  "((\<exists>msg. compute_maps cv k h w ls = Inl (AssertionError msg)) \<longleftrightarrow> (odd h \<or> odd w)) \<and>
   (warp_contract cv \<and> even h \<and> even w \<and> 2 \<le> h \<and> 2 \<le> w \<longrightarrow>
      (\<exists>m. compute_maps cv k h w ls = Inr m \<and> has_shape m (nat (h div 2)) (nat (w div 2))))"
  using compute_maps_even[of h w cv k ls] compute_maps_odd[of h w cv k ls]
    compute_maps_returns[of cv h w k ls] by blast

theorem compute_maps_assertion_iff_witness:
  "(\<exists>msg. compute_maps (cv_flat 9) [[255]] 3 4 [[(0, 0, 2, 0, 2, 2, 0, 2, ''a'')]]
      = Inl (AssertionError msg)) \<and>
   warp_contract (cv_flat 9) \<and> even (2::int) \<and> even (4::int) \<and>
   (\<exists>m. compute_maps (cv_flat 9) [[255]] 2 4 [[(0, 0, 2, 0, 2, 2, 0, 2, ''a'')]] = Inr m
      \<and> has_shape m 1 2)"
  using compute_maps_assertion_iff [of "cv_flat 9" "[[255]]" 3 4 "[[(0, 0, 2, 0, 2, 2, 0, 2, ''a'')]]"]
    compute_maps_assertion_iff [of "cv_flat 9" "[[255]]" 2 4 "[[(0, 0, 2, 0, 2, 2, 0, 2, ''a'')]]"]
    cv_flat_contract [of 9]
  by simp

text \<open>
  C8: whatever the kernel, the dimensions and the lines, every element of both channels of
  a map that \<open>compute_maps\<close> returns lies in \<open>[0, 1]\<close>: the stacked maps are clipped to
  \<open>[0, 255]\<close> and divided by 255. (\<open>compute_maps_returns\<close> shows that maps are
  returned.)
\<close>

theorem compute_maps_in_unit_interval:
  assumes "compute_maps cv k h w ls = Inr m" "row \<in> set m" "(t, l) \<in> set row"
  shows "in_unit_interval t \<and> in_unit_interval l"
proof -
  from assms(1) obtain maps where
    m: "m = map_plane (\<lambda>(t, l). (clip 0 255 t / 255, clip 0 255 l / 255))
             (zip_plane Pair (fst maps) (snd maps))"
    unfolding compute_maps_def by (auto simp: Let_def bind_e_eq_Inr split: if_splits)
  from assms(2,3) obtain a b where "t = clip 0 255 a / 255" "l = clip 0 255 b / 255"
    unfolding m map_plane_def by auto
  then show ?thesis by (simp only: clip_unit)
qed

theorem compute_maps_in_unit_interval_witness:
  "compute_maps (cv_flat 51) [[255]] 2 2
     [[(0, 0, 2, 0, 2, 2, 0, 2, ''a''), (2, 0, 4, 0, 4, 2, 2, 2, ''b'')]] = Inr [[(2/5, 1/5)]] \<and>
   in_unit_interval (2/5) \<and> in_unit_interval (1/5)"
  using compute_maps_example
    compute_maps_in_unit_interval [OF compute_maps_example, of "[(2/5, 1/5)]" "2/5" "1/5"]
  by simp

text \<open>
  C10: the result of \<open>compute_maps\<close>, an error included, depends on the labels only
  through the test \<open>c == ' '\<close>: two inputs with the same coordinates and the space
  label in the same entries give the same text and link maps.
\<close>

theorem compute_maps_label_independent:
  assumes "list_all2 (list_all2 same_box) lines lines'"
  shows "compute_maps cv k h w lines = compute_maps cv k h w lines'"
  unfolding compute_maps_def by (simp add: lines_loop_same_box[OF assms])

theorem compute_maps_label_independent_witness:
  "list_all2 (list_all2 same_box)
     [[(0, 0, 2, 0, 2, 2, 0, 2, ''a''), (2, 0, 4, 0, 4, 2, 2, 2, '' ''), (4, 0, 6, 0, 6, 2, 4, 2, ''c'')]]
     [[(0, 0, 2, 0, 2, 2, 0, 2, ''x''), (2, 0, 4, 0, 4, 2, 2, 2, '' ''), (4, 0, 6, 0, 6, 2, 4, 2, ''yz'')]] \<and>
   compute_maps (cv_flat 51) [[255]] 2 2
     [[(0, 0, 2, 0, 2, 2, 0, 2, ''a''), (2, 0, 4, 0, 4, 2, 2, 2, '' ''), (4, 0, 6, 0, 6, 2, 4, 2, ''c'')]] =
   compute_maps (cv_flat 51) [[255]] 2 2
     [[(0, 0, 2, 0, 2, 2, 0, 2, ''x''), (2, 0, 4, 0, 4, 2, 2, 2, '' ''), (4, 0, 6, 0, 6, 2, 4, 2, ''yz'')]]"
proof -
  have s: "list_all2 (list_all2 same_box)
     [[(0, 0, 2, 0, 2, 2, 0, 2, ''a''), (2, 0, 4, 0, 4, 2, 2, 2, '' ''), (4, 0, 6, 0, 6, 2, 4, 2, ''c'')]]
     [[(0, 0, 2, 0, 2, 2, 0, 2, ''x''), (2, 0, 4, 0, 4, 2, 2, 2, '' ''), (4, 0, 6, 0, 6, 2, 4, 2, ''yz'')]]"
    by (simp add: same_box_def)
  from s compute_maps_label_independent [OF s, of "cv_flat 51" "[[255]]" 2 2] show ?thesis
    by blast
qed

section \<open>Properties of getBoxes\<close>

subsection \<open>The order of the corners\<close>

















subsection \<open>Raising the size threshold\<close>

lemma component_box_raise_threshold:
  assumes "s1 \<le> s2"
    and "component_box cv dt s1 textmap ts ls labels stats i = Inr r1"
  shows "\<exists>r2. component_box cv dt s2 textmap ts ls labels stats i = Inr r2 \<and> (r2 = None \<or> r2 = r1)"
proof (cases "length stats \<le> i")
  case True
  with assms(2) show ?thesis by (simp add: component_box_def)
next
  case False
  obtain x y w h a where st: "stats ! i = (x, y, w, h, a)" by (cases "stats ! i") auto
  show ?thesis
  proof (cases "real a < s2")
    case True
    with False st show ?thesis by (simp add: component_box_def)
  next
    case False
    with assms(1) have "\<not> real a < s1" by simp
    with False assms(2) st \<open>\<not> length stats \<le> i\<close> show ?thesis by (simp add: component_box_def)
  qed
qed

lemma boxes_loop_fewer:
  assumes step: "\<And>i r1. f1 i = Inr r1 \<Longrightarrow> \<exists>r2. f2 i = Inr r2 \<and> (r2 = None \<or> r2 = r1)"
  shows "boxes_loop f1 ids acc1 = Inr b1 \<Longrightarrow> length acc2 \<le> length acc1 \<Longrightarrow>
     \<exists>b2. boxes_loop f2 ids acc2 = Inr b2 \<and> length b2 \<le> length b1"
proof (induction ids arbitrary: acc1 acc2)
  case Nil
  then show ?case by simp
next
  case (Cons i ids)
  from Cons.prems(1) obtain r1 where r1: "f1 i = Inr r1"
    and rest: "boxes_loop f1 ids (case r1 of None \<Rightarrow> acc1 | Some box \<Rightarrow> acc1 @ [box]) = Inr b1"
    by (auto simp: bind_e_eq_Inr)
  from step[OF r1] obtain r2 where r2: "f2 i = Inr r2" "r2 = None \<or> r2 = r1" by blast
  have "length (case r2 of None \<Rightarrow> acc2 | Some box \<Rightarrow> acc2 @ [box])
      \<le> length (case r1 of None \<Rightarrow> acc1 | Some box \<Rightarrow> acc1 @ [box])"
    using r2(2) Cons.prems(2) by (auto split: option.splits)
  from Cons.IH[OF rest this] show ?case using r2(1) by simp
qed

lemma getBoxes_cur_fewer:
  assumes "s1 \<le> s2" "getBoxes_cur cv dt tt lt s1 y = Inr b1"
  shows "\<exists>b2. getBoxes_cur cv dt tt lt s2 y = Inr b2 \<and> length b2 \<le> length b1"
proof -
  obtain n labels stats where cc: "connectedComponentsWithStats cv
      (union_mask (text_score_of (map_plane fst y) tt) (link_score_of (map_plane snd y) lt))
      = (n, labels, stats)" by (metis prod_cases3)
  from assms(2) have "boxes_loop (component_box cv dt s1 (map_plane fst y)
        (text_score_of (map_plane fst y) tt) (link_score_of (map_plane snd y) lt) labels stats)
        [1..<n] [] = Inr b1"
    by (simp add: getBoxes_cur_def cc Let_def)
  from boxes_loop_fewer[where ?acc2.0 = "[]", OF component_box_raise_threshold[OF assms(1)] this]
  show ?thesis by (simp add: getBoxes_cur_def cc Let_def)
qed

subsection \<open>Two heatmaps of 2 rows and 5 columns\<close>

lemma up2: "[0..<2] = [0, 1]" by (simp add: upt_rec)

lemma up5: "[0..<5] = [0, 1, 2, 3, 4]" by (simp add: upt_rec)

lemma rep: "replicate 2 x = [x, x]" "replicate 5 x = [x, x, x, x, x]"
  by (simp_all add: numeral_2_eq_2 eval_nat_numeral)

lemma mask1: "union_mask (text_score_of (map_plane fst strong_text) (4/10))
     (link_score_of (map_plane snd strong_text) (4/10)) = replicate 2 (replicate 5 1)"
  by (simp add: union_mask_def text_score_of_def link_score_of_def cv2_threshold_binary_def
      threshold_binary_px_def map_plane_def zip_plane_def strong_text_def rep clip_def
      astype_uint8_def trunc_def)

lemma cc1: "cc_one (replicate 2 (replicate 5 1)) =
    (2, replicate 2 (replicate 5 1), [(0, 0, 5, 2, 0), (0, 0, 5, 2, 10)])"
  by (simp add: cc_one_def rep blank_def Let_def first_true_def last_true_def row_flags_def
      col_flags_def ncols_def nrows_def map_plane_def up5)

lemma dil: "dilate_rect (replicate 2 (replicate 5 255)) 3 = replicate 2 (replicate 5 255)"
  by (simp add: dilate_rect_def dilate1_def rep up5 up2)

lemma sqrt2_floor: "\<lfloor>sqrt 2 * 2\<rfloor> = 2"
proof -
  have "1 \<le> sqrt 2" by simp
  moreover have "sqrt 2 < 3/2" by (rule real_less_lsqrt) (simp_all add: power2_eq_square)
  ultimately show ?thesis by linarith
qed

lemma carve1: "carve (replicate 2 (replicate 5 v)) (replicate 2 (replicate 5 i)) i
    (replicate 2 (replicate 5 0)) (replicate 2 (replicate 5 1)) = replicate 2 (replicate 5 255)"
  by (simp add: carve_def mark_component_def carve_links_def rep map_plane_def zip_plane_def)

lemma vals1: "masked_values (replicate 2 (replicate 5 v)) (replicate 2 (replicate 5 i)) i
    = replicate 10 v"
  by (simp add: masked_values_def rep eval_nat_numeral)

lemma box1: "box_of_contour cv_rect [(0, 0), (0, 1), (4, 1), (4, 0)]
    = Inr [(0, 0), (8, 0), (8, 2), (0, 2)]"
proof -
  have s16: "sqrt 16 = 4" using real_sqrt_abs[of 4] by simp
  have pts: "boxPoints cv_rect (minAreaRect cv_rect [(0, 0), (0, 1), (4, 1), (4, 0)])
      = ((0, 1), (0, 0), (4, 0), (4, 1))"
    by (simp add: cv_rect_def bounding_rect_def rotated_rect_points_def Let_def)
  show ?thesis
    unfolding box_of_contour_def pts
    by (simp add: norm2_def s16 Let_def argmin_def roll_def scale2_def)
qed

lemma slice_full:
  "2 \<le> n \<Longrightarrow> slice2 (replicate 2 (replicate 5 v)) 0 n 0 5 = replicate 2 (replicate 5 v)"
  by (simp add: slice2_def rep)

lemma assign_full:
  "2 \<le> n \<Longrightarrow>
   assign_slice (replicate 2 (replicate 5 v)) 0 n 0 5 (replicate 2 (replicate 5 u))
     = Inr (replicate 2 (replicate 5 u))"
  by (simp add: assign_slice_def rep nrows_def ncols_def broadcastable_def broadcast_at_def
      up2 up5 Let_def)

lemma contour1: "contour_of_bbox (map_plane astype_uint8 (replicate 2 (replicate 5 255)))
    = [[(0, 0), (0, 1), (4, 1), (4, 0)]]"
  by (simp add: contour_of_bbox_def map_plane_def rep astype_uint8_def trunc_def blank_def
      first_true_def last_true_def row_flags_def col_flags_def ncols_def up5 Let_def)

lemma segment1:
  "segment_box cv_rect (7/10) (replicate 2 (replicate 5 (9/10))) (replicate 2 (replicate 5 1))
     (replicate 2 (replicate 5 0)) (replicate 2 (replicate 5 1)) (0, 0, 5, 2, 10) 1
   = Inr (Some [(0, 0), (8, 0), (8, 2), (0, 2)])"
proof -
  have sh: "same_shape (replicate 2 (replicate 5 (1::nat))) (replicate 2 (replicate 5 (9/10::real)))"
    by (simp add: same_shape_def)
  have mx: "Max (set (replicate 10 (9/10::real))) = 9/10" by simp
  have dim: "nrows (replicate 2 (replicate 5 (9/10::real))) = 2"
    "ncols (replicate 2 (replicate 5 (9/10::real))) = 5"
    by (simp_all add: nrows_def ncols_def rep)
  have cvf: "dilate cv_rect = dilate_rect" "findContours cv_rect = contour_of_bbox"
    by (simp_all add: cv_rect_def)
  show ?thesis
    unfolding segment_box_def dilate_segmap_def box_of_segmap_def
    by (simp add: sh[simplified] vals1 carve1 dim sqrt2_floor Let_def slice_full
        cvf dil assign_full contour1 box1)
qed

lemma getBoxes_cur_strong_text:
  "getBoxes_cur cv_rect (7/10) (4/10) (4/10) 10 strong_text
     = Inr [[(0, 0), (8, 0), (8, 2), (0, 2)]]"
proof -
  have t: "map_plane fst strong_text = replicate 2 (replicate 5 (9/10))"
    by (simp add: strong_text_def map_plane_def)
  have ts: "text_score_of (replicate 2 (replicate 5 (9/10))) (2/5) = replicate 2 (replicate 5 1)"
    by (simp add: text_score_of_def cv2_threshold_binary_def threshold_binary_px_def)
  have ls: "link_score_of (map_plane snd strong_text) (2/5) = replicate 2 (replicate 5 0)"
    by (simp add: link_score_of_def cv2_threshold_binary_def threshold_binary_px_def
        strong_text_def map_plane_def)
  have cc: "connectedComponentsWithStats cv_rect = cc_one" by (simp add: cv_rect_def)
  have one: "[Suc 0..<2] = [Suc 0]" by (simp add: upt_rec)
  have m: "union_mask (replicate 2 (replicate 5 1)) (replicate 2 (replicate 5 0))
      = replicate 2 (replicate 5 1)"
    using mask1 by (simp add: t ts ls)
  show ?thesis
    unfolding getBoxes_cur_def Let_def
    by (simp add: t ts ls m cc cc1[simplified] one component_box_def segment1[simplified])
qed

lemma carve_all:
  "carve (replicate 2 (replicate 5 v)) (replicate 2 (replicate 5 i)) i
     (replicate 2 (replicate 5 1)) (replicate 2 (replicate 5 1)) = replicate 2 (replicate 5 0)"
  by (simp add: carve_def mark_component_def carve_links_def rep map_plane_def zip_plane_def)

lemma mask2: "union_mask (replicate 2 (replicate 5 1)) (replicate 2 (replicate 5 1))
    = replicate 2 (replicate 5 1)"
  by (simp add: union_mask_def map_plane_def zip_plane_def rep clip_def astype_uint8_def
      trunc_def)

lemma blank_uint8: "map_plane astype_uint8 (replicate 2 (replicate 5 0)) = replicate 2 (replicate 5 0)"
  by (simp add: map_plane_def astype_uint8_def trunc_def)

lemma dil0: "dilate_rect (replicate 2 (replicate 5 0)) 3 = replicate 2 (replicate 5 0)"
  by (simp add: dilate_rect_def dilate1_def rep up5 up2)

lemma getBoxes_strong_text:
  "getBoxes cv_rect (7/10) (4/10) (4/10) 10 [strong_text]
     = Inr [[[(0, 0), (8, 0), (8, 2), (0, 2)]]]"
  by (simp only: getBoxes.simps getBoxes_cur_strong_text bind_e_Inr)


subsection \<open>The claims about getBoxes\<close>

text \<open>
  C1 (the code fails where the claim promises a local rejection): the heatmap pair of 2
  rows and 5 columns with text 0.9 and link 0.9 at every pixel has one component of 10
  pixels, which passes the size filter and the detection filter with the default
  thresholds. Every pixel of it is both text and link, so the carving leaves an empty
  segmentation map; an OpenCV that labels the component, keeps a blank image blank under
  dilation and finds no contour in a blank image makes \<open>contours[0]\<close> raise IndexError.
\<close>

theorem getBoxes_carved_component_raises:
  assumes cc: "connectedComponentsWithStats cv (replicate 2 (replicate 5 1))
      = (2, replicate 2 (replicate 5 1), [background, (0, 0, 5, 2, 10)])"
    and dl: "dilate cv (replicate 2 (replicate 5 0)) 3 = replicate 2 (replicate 5 0)"
    and fc: "findContours cv (replicate 2 (replicate 5 0)) = []"
  shows "getBoxes cv (7/10) (4/10) (4/10) 10 [strong_text_and_link] = Inl IndexError"
proof -
  have t: "map_plane fst strong_text_and_link = replicate 2 (replicate 5 (9/10))"
    "map_plane snd strong_text_and_link = replicate 2 (replicate 5 (9/10))"
    by (simp_all add: strong_text_and_link_def map_plane_def)
  have ts: "text_score_of (replicate 2 (replicate 5 (9/10))) (2/5) = replicate 2 (replicate 5 1)"
    "link_score_of (replicate 2 (replicate 5 (9/10))) (2/5) = replicate 2 (replicate 5 1)"
    by (simp_all add: text_score_of_def link_score_of_def cv2_threshold_binary_def
        threshold_binary_px_def)
  have sh: "same_shape (replicate 2 (replicate 5 (Suc 0))) (replicate 2 (replicate 5 (9/10::real)))"
    by (simp add: same_shape_def)
  have dim: "nrows (replicate 2 (replicate 5 (9/10::real))) = 2"
    "ncols (replicate 2 (replicate 5 (9/10::real))) = 5"
    by (simp_all add: nrows_def ncols_def rep)
  have seg: "segment_box cv (7/10) (replicate 2 (replicate 5 (9/10))) (replicate 2 (replicate 5 1))
     (replicate 2 (replicate 5 1)) (replicate 2 (replicate 5 (Suc 0))) (0, 0, 5, 2, 10) (Suc 0)
     = Inl IndexError"
    unfolding segment_box_def dilate_segmap_def box_of_segmap_def
    by (simp add: sh vals1 carve_all dim sqrt2_floor Let_def slice_full dl assign_full
        blank_uint8 fc)
  have one: "[Suc 0..<2] = [Suc 0]" by (simp add: upt_rec)
  have "getBoxes_cur cv (7/10) (4/10) (4/10) 10 strong_text_and_link = Inl IndexError"
    unfolding getBoxes_cur_def Let_def
    by (simp add: t ts mask2 cc[simplified] one component_box_def seg)
  then show ?thesis by simp
qed

theorem getBoxes_carved_component_raises_witness:
  "getBoxes cv_rect (7/10) (4/10) (4/10) 10 [strong_text_and_link] = Inl IndexError"
proof (rule getBoxes_carved_component_raises)
  show "connectedComponentsWithStats cv_rect (replicate 2 (replicate 5 1))
      = (2, replicate 2 (replicate 5 1), [(0, 0, 5, 2, 0), (0, 0, 5, 2, 10)])"
    by (simp add: cv_rect_def cc1)
  show "dilate cv_rect (replicate 2 (replicate 5 0)) 3 = replicate 2 (replicate 5 0)"
    by (simp add: cv_rect_def dil0)
  show "findContours cv_rect (replicate 2 (replicate 5 0)) = []"
    by (simp add: cv_rect_def contour_of_bbox_def blank_def)
qed



text \<open>
  C7: with the heatmaps and the other thresholds fixed, if the call with the size
  threshold \<open>s1\<close> returns, so does the call with any \<open>s2 \<ge> s1\<close>, and for every image it
  returns at most as many boxes.
\<close>

theorem getBoxes_size_threshold_monotone:
  assumes "s1 \<le> s2" "getBoxes cv dt tt lt s1 y_pred = Inr groups1"
  shows "\<exists>groups2. getBoxes cv dt tt lt s2 y_pred = Inr groups2 \<and>
     list_all2 (\<lambda>boxes2 boxes1. length boxes2 \<le> length boxes1) groups2 groups1"
  using assms(2)
proof (induction y_pred arbitrary: groups1)
  case Nil
  then show ?case by simp
next
  case (Cons y y_pred)
  from Cons.prems obtain b1 g1 where b1: "getBoxes_cur cv dt tt lt s1 y = Inr b1"
    and g1: "getBoxes cv dt tt lt s1 y_pred = Inr g1" and eq: "groups1 = b1 # g1"
    by (auto simp: bind_e_eq_Inr)
  from getBoxes_cur_fewer[OF assms(1) b1] obtain b2 where
    b2: "getBoxes_cur cv dt tt lt s2 y = Inr b2" "length b2 \<le> length b1" by blast
  from Cons.IH[OF g1] obtain g2 where g2: "getBoxes cv dt tt lt s2 y_pred = Inr g2"
    "list_all2 (\<lambda>boxes2 boxes1. length boxes2 \<le> length boxes1) g2 g1" by blast
  show ?case using b2 g2 eq by simp
qed

theorem getBoxes_size_threshold_monotone_witness:
  "(10 :: real) \<le> 11 \<and>
   getBoxes cv_rect (7/10) (4/10) (4/10) 10 [strong_text]
     = Inr [[[(0, 0), (8, 0), (8, 2), (0, 2)]]] \<and>
   (\<exists>groups2. getBoxes cv_rect (7/10) (4/10) (4/10) 11 [strong_text] = Inr groups2 \<and>
      list_all2 (\<lambda>boxes2 boxes1. length boxes2 \<le> length boxes1) groups2
        [[[(0, 0), (8, 0), (8, 2), (0 :: real, 2 :: real)]]])"
proof -
  have le: "(10 :: real) \<le> 11" by simp
  from le getBoxes_strong_text
    getBoxes_size_threshold_monotone [OF le getBoxes_strong_text]
  show ?thesis by blast
qed

section \<open>What the calls do to the store\<close>

lemma lookup_append_old [simp]: "a < length s \<Longrightarrow> lookup (s @ xs) a = lookup s a"
  by (simp add: lookup_def nth_append)

lemma lookup_append_new [simp]: "lookup (s @ [v]) (length s) = Some v"
  by (simp add: lookup_def)

lemma lookup_Some_less: "lookup s a = Some v \<Longrightarrow> a < length s"
  by (simp add: lookup_def split: if_splits)

lemma lookup_prefix: "prefix s s' \<Longrightarrow> lookup s a = Some v \<Longrightarrow> lookup s' a = Some v"
  by (auto simp: prefix_def lookup_def nth_append split: if_splits)

lemma plane_at_prefix: "prefix s s' \<Longrightarrow> lookup s a = Some (Plane p) \<Longrightarrow> plane_at s' a = p"
  by (simp add: plane_at_def lookup_prefix)

lemma update_plane_new [simp]: "update_plane (s @ [Plane p]) (length s) f = s @ [Plane (f p)]"
  by (simp add: update_plane_def)

lemma update_image_new [simp]: "update_image (s @ [ImageF x]) (length s) f = s @ [ImageF (f x)]"
  by (simp add: update_image_def)

lemma plane_at_new [simp]: "plane_at (s @ [Plane p]) (length s) = p"
  by (simp add: plane_at_def)

lemma plane_at_old [simp]: "a < length s \<Longrightarrow> plane_at (s @ xs) a = plane_at s a"
  by (simp add: plane_at_def)

lemma plane_at_append:
  "plane_at (s @ xs) a = (if a < length s then plane_at s a else plane_at xs (a - length s))"
  by (auto simp: plane_at_def lookup_def nth_append)

lemma plane_at_Cons:
  "plane_at (Plane p # xs) 0 = p" "plane_at (x # xs) (Suc n) = plane_at xs n"
  by (simp_all add: plane_at_def lookup_def)

lemma prefix_unchanged: "prefix s s' \<Longrightarrow> unchanged s s'"
  by (auto simp: prefix_def unchanged_def nth_append)

lemma compute_input_st_image:
  assumes "lookup s a = Some (Image8 img)"
  shows "compute_input_st f64 f32 s a = (Inr (length s), s @ [ImageF (compute_input f64 f32 img)])"
  using assms by (simp add: compute_input_st_def alloc_def compute_input_def Let_def)

lemma compute_input_st_other:
  assumes "\<forall>img. lookup s a \<noteq> Some (Image8 img)"
  shows "compute_input_st f64 f32 s a = (Inl ValueError, s)"
  using assms by (auto simp: compute_input_st_def split: option.splits ndarray.splits)

lemma compute_input_st_prefix: "prefix s (snd (compute_input_st f64 f32 s a))"
proof (cases "\<exists>img. lookup s a = Some (Image8 img)")
  case True
  then show ?thesis by (auto simp: compute_input_st_image)
next
  case False
  then show ?thesis by (simp add: compute_input_st_other)
qed

lemma invert_input_st_image:
  assumes "lookup s a = Some (ImageF x)"
  shows "invert_input_st f64 f32 s a =
     (Inr (length s + 2),
      s @ [ImageF (iadd f64 f32 (imul f64 f32 x (times255 f64 variance)) (times255 f64 mean)),
           ImageF (map (map (map_rgb (clip 0 255)))
             (iadd f64 f32 (imul f64 f32 x (times255 f64 variance)) (times255 f64 mean))),
           Image8 (invert_input f64 f32 x)])"
proof -
  have l: "lookup (s @ [u, v]) (Suc (length s)) = Some v" for u v :: ndarray
    by (simp add: lookup_def nth_append)
  have l0: "lookup (s @ [u]) (length s) = Some u" for u :: ndarray
    by simp
  show ?thesis
    using assms
    by (simp add: invert_input_st_def alloc_def invert_input_def Let_def l map_rgb_def
        case_prod_unfold o_def)
qed

lemma invert_input_st_other:
  assumes "\<forall>x. lookup s a \<noteq> Some (ImageF x)"
  shows "invert_input_st f64 f32 s a = (Inl ValueError, s)"
  using assms by (auto simp: invert_input_st_def split: option.splits ndarray.splits)

lemma invert_input_st_prefix: "prefix s (snd (invert_input_st f64 f32 s a))"
proof (cases "\<exists>x. lookup s a = Some (ImageF x)")
  case True
  then show ?thesis by (auto simp: invert_input_st_image)
next
  case False
  then show ?thesis by (simp add: invert_input_st_other)
qed

lemma segment_box_st_refines:
  assumes t: "lookup s ta = Some (Plane textmap)"
    and ts: "lookup s tsa = Some (Plane text_score)"
    and ls: "lookup s lsa = Some (Plane link_score)"
  shows "fst (segment_box_st cv dt ta tsa lsa labels st i s)
           = segment_box cv dt textmap text_score link_score labels st i \<and>
         prefix s (snd (segment_box_st cv dt ta tsa lsa labels st i s))"
proof -
  have lt: "ta < length s" "tsa < length s" "lsa < length s"
    using t ts ls by (auto dest: lookup_Some_less)
  have p: "plane_at s ta = textmap" "plane_at s tsa = text_score" "plane_at s lsa = link_score"
    using t ts ls by (simp_all add: plane_at_def)
  show ?thesis
  proof (cases "dilate_segmap cv (carve textmap labels i link_score text_score) st
                  (nrows textmap) (ncols textmap)")
    case (Inl e)
    then show ?thesis
      unfolding segment_box_st_def segment_box_def
      by (simp add: p lt alloc_def Let_def carve_def)
  next
    case (Inr assigned)
    then show ?thesis
      unfolding segment_box_st_def segment_box_def
      by (simp add: p lt alloc_def Let_def carve_def)
  qed
qed

lemma component_box_st_refines:
  assumes "lookup s ta = Some (Plane textmap)" "lookup s tsa = Some (Plane text_score)"
    "lookup s lsa = Some (Plane link_score)"
  shows "fst (component_box_st cv dt sz ta tsa lsa labels stats i s)
           = component_box cv dt sz textmap text_score link_score labels stats i \<and>
         prefix s (snd (component_box_st cv dt sz ta tsa lsa labels stats i s))"
  using segment_box_st_refines[OF assms]
  by (auto simp: component_box_st_def component_box_def split: prod.splits)

lemma boxes_loop_st_refines:
  assumes body: "\<And>i s. prefix s0 s \<Longrightarrow>
      fst (body_st i s) = body i \<and> prefix s (snd (body_st i s))"
  shows "prefix s0 s \<Longrightarrow>
     fst (boxes_loop_st body_st ids acc s) = boxes_loop body ids acc \<and>
     prefix s (snd (boxes_loop_st body_st ids acc s))"
proof (induction ids arbitrary: acc s)
  case Nil
  then show ?case by simp
next
  case (Cons i ids)
  obtain r s1 where b: "body_st i s = (r, s1)" by (cases "body_st i s")
  note h = body[OF Cons.prems, of i]
  have r: "r = body i" using h[THEN conjunct1] b by simp
  have p1: "prefix s s1" using h[THEN conjunct2] b by simp
  show ?case
  proof (cases r)
    case (Inl e)
    have "body i = Inl e" "body_st i s = (Inl e, s1)" using r b Inl by simp_all
    with p1 show ?thesis by simp
  next
    case (Inr v)
    have bi: "body i = Inr v" "body_st i s = (Inr v, s1)" using r b Inr by simp_all
    from Cons.prems p1 have "prefix s0 s1" by (rule prefix_order.trans)
    from Cons.IH[OF this] have
      "fst (boxes_loop_st body_st ids (case v of None \<Rightarrow> acc | Some box \<Rightarrow> acc @ [box]) s1)
         = boxes_loop body ids (case v of None \<Rightarrow> acc | Some box \<Rightarrow> acc @ [box])"
      "prefix s1 (snd (boxes_loop_st body_st ids (case v of None \<Rightarrow> acc | Some box \<Rightarrow> acc @ [box]) s1))"
      by auto
    with bi p1 show ?thesis
      by (auto intro: prefix_order.trans)
  qed
qed

lemma getBoxes_cur_st_refines:
  assumes "lookup s a = Some (HeatmapPair y)"
  shows "fst (getBoxes_cur_st cv dt tt lt sz s a) = getBoxes_cur cv dt tt lt sz y \<and>
         prefix s (snd (getBoxes_cur_st cv dt tt lt sz s a))"
proof -
  define textmap where "textmap = map_plane fst y"
  define linkmap where "linkmap = map_plane snd y"
  define text_score where "text_score = text_score_of textmap tt"
  define link_score where "link_score = link_score_of linkmap lt"
  define s4 where "s4 = s @ [Plane textmap, Plane linkmap, Plane text_score, Plane link_score]"
  obtain n labels stats where cc:
    "connectedComponentsWithStats cv (union_mask text_score link_score) = (n, labels, stats)"
    by (metis prod_cases3)
  have l: "lookup s4 (length s) = Some (Plane textmap)"
    "lookup s4 (Suc (Suc (length s))) = Some (Plane text_score)"
    "lookup s4 (Suc (Suc (Suc (length s)))) = Some (Plane link_score)"
    by (simp_all add: s4_def lookup_def nth_append)
  have body: "fst (component_box_st cv dt sz (length s) (Suc (Suc (length s)))
                     (Suc (Suc (Suc (length s)))) labels stats i s')
                = component_box cv dt sz textmap text_score link_score labels stats i \<and>
              prefix s' (snd (component_box_st cv dt sz (length s) (Suc (Suc (length s)))
                     (Suc (Suc (Suc (length s)))) labels stats i s'))"
    if "prefix s4 s'" for i s'
    by (intro component_box_st_refines lookup_prefix[OF that] l)
  have loop: "fst (boxes_loop_st (component_box_st cv dt sz (length s) (Suc (Suc (length s)))
                     (Suc (Suc (Suc (length s)))) labels stats) [1..<n] [] s4)
       = boxes_loop (component_box cv dt sz textmap text_score link_score labels stats) [1..<n] []"
    "prefix s4 (snd (boxes_loop_st (component_box_st cv dt sz (length s) (Suc (Suc (length s)))
                     (Suc (Suc (Suc (length s)))) labels stats) [1..<n] [] s4))"
    using boxes_loop_st_refines[where ?s0.0 = s4 and s = s4, OF body] by auto
  have p: "plane_at (s @ [Plane textmap]) (length s) = textmap"
    "plane_at (s @ [Plane textmap, Plane linkmap]) (Suc (length s)) = linkmap"
    "plane_at s4 (Suc (Suc (length s))) = text_score"
    "plane_at s4 (Suc (Suc (Suc (length s)))) = link_score"
    by (simp_all add: plane_at_def lookup_def nth_append s4_def)
  have st: "getBoxes_cur_st cv dt tt lt sz s a =
      boxes_loop_st (component_box_st cv dt sz (length s) (Suc (Suc (length s)))
                     (Suc (Suc (Suc (length s)))) labels stats) [1..<n] [] s4"
    using assms cc
    by (simp add: getBoxes_cur_st_def alloc_def Let_def plane_at_append plane_at_Cons
        textmap_def[symmetric] linkmap_def[symmetric] text_score_def[symmetric]
        link_score_def[symmetric] s4_def[symmetric])
  have pure: "getBoxes_cur cv dt tt lt sz y =
      boxes_loop (component_box cv dt sz textmap text_score link_score labels stats) [1..<n] []"
    using cc
    by (simp add: getBoxes_cur_def Let_def textmap_def[symmetric] linkmap_def[symmetric]
        text_score_def[symmetric] link_score_def[symmetric])
  have "prefix s s4" by (simp add: s4_def)
  with loop show ?thesis unfolding st pure by (auto intro: prefix_order.trans)
qed

lemma getBoxes_cur_st_prefix: "prefix s (snd (getBoxes_cur_st cv dt tt lt sz s a))"
proof (cases "\<exists>y. lookup s a = Some (HeatmapPair y)")
  case True
  then show ?thesis using getBoxes_cur_st_refines by blast
next
  case False
  then have "getBoxes_cur_st cv dt tt lt sz s a = (Inl ValueError, s)"
    by (auto simp: getBoxes_cur_st_def split: option.splits ndarray.splits)
  then show ?thesis by simp
qed

lemma getBoxes_st_prefix: "prefix s (snd (getBoxes_st cv dt tt lt sz s addrs))"
proof (induction addrs arbitrary: s)
  case Nil
  then show ?case by simp
next
  case (Cons a addrs)
  obtain r s1 where c: "getBoxes_cur_st cv dt tt lt sz s a = (r, s1)"
    by (cases "getBoxes_cur_st cv dt tt lt sz s a")
  have p1: "prefix s s1" using getBoxes_cur_st_prefix[of s cv dt tt lt sz a] c by simp
  obtain r2 s2 where g: "getBoxes_st cv dt tt lt sz s1 addrs = (r2, s2)"
    by (cases "getBoxes_st cv dt tt lt sz s1 addrs")
  have p2: "prefix s1 s2" using Cons.IH[of s1] g by simp
  have "prefix s s2" using p1 p2 by (rule prefix_order.trans)
  with p1 c g show ?case by (auto split: sum.splits)
qed

lemma getBoxes_st_refines:
  "list_all2 (\<lambda>a y. lookup s a = Some (HeatmapPair y)) addrs y_pred \<Longrightarrow>
   fst (getBoxes_st cv dt tt lt sz s addrs) = getBoxes cv dt tt lt sz y_pred"
proof (induction addrs arbitrary: s y_pred)
  case Nil
  then show ?case by simp
next
  case (Cons a addrs)
  from Cons.prems obtain y ys where yp: "y_pred = y # ys"
    and ya: "lookup s a = Some (HeatmapPair y)"
    and rest: "list_all2 (\<lambda>a y. lookup s a = Some (HeatmapPair y)) addrs ys"
    by (auto simp: list_all2_Cons1)
  obtain r s1 where c: "getBoxes_cur_st cv dt tt lt sz s a = (r, s1)"
    by (cases "getBoxes_cur_st cv dt tt lt sz s a")
  note h = getBoxes_cur_st_refines[OF ya, of cv dt tt lt sz]
  have r: "r = getBoxes_cur cv dt tt lt sz y" using h[THEN conjunct1] c by simp
  have p1: "prefix s s1" using h[THEN conjunct2] c by simp
  have "list_all2 (\<lambda>a y. lookup s1 a = Some (HeatmapPair y)) addrs ys"
    using rest lookup_prefix[OF p1] by (auto elim: list_all2_mono)
  from Cons.IH[OF this]
  have g: "fst (getBoxes_st cv dt tt lt sz s1 addrs) = getBoxes cv dt tt lt sz ys" .
  obtain r2 s2 where g2: "getBoxes_st cv dt tt lt sz s1 addrs = (r2, s2)"
    by (cases "getBoxes_st cv dt tt lt sz s1 addrs")
  have c': "getBoxes_cur_st cv dt tt lt sz s a = (getBoxes_cur cv dt tt lt sz y, s1)"
    using c r by simp
  have g': "getBoxes_st cv dt tt lt sz s1 addrs = (getBoxes cv dt tt lt sz ys, s2)"
    using g g2 by simp
  show ?case unfolding yp by (simp add: c' g' bind_e_def split: sum.splits)
qed

lemma in_place_changes_target:
  "\<not> unchanged [ImageF [[(1, 1, 1)]]]
       (update_image [ImageF [[(1, 1, 1)]]] 0 (\<lambda>x. imul (\<lambda>v. v) (\<lambda>v. v) x (2, 2, 2)))"
  by (simp add: unchanged_def update_image_def lookup_def imul_def zip_rgb_def)

text \<open>
  C9: after a call of \<open>getBoxes\<close>, \<open>compute_input\<close> or \<open>invert_input\<close>, whether it
  returns or raises, every array that existed before the call holds the value it held
  before: the functions write only to the arrays they created themselves (the copies of
  the text and link channels, the segmentation maps, the float copy of the image).
  \<open>getBoxes_st_refines\<close>, \<open>compute_input_st_image\<close> and \<open>invert_input_st_image\<close> show
  that the functions on the store compute what the functions on values compute, and
  \<open>in_place_changes_target\<close> that an in-place operation does change its target.
\<close>

theorem calls_leave_arrays_unchanged:
  "unchanged s (snd (getBoxes_st cv dt tt lt sz s y_pred)) \<and>
   unchanged s (snd (compute_input_st f64 f32 s img)) \<and>
   unchanged s (snd (invert_input_st f64 f32 s X))"
  by (simp add: prefix_unchanged getBoxes_st_prefix compute_input_st_prefix
      invert_input_st_prefix)

theorem calls_leave_arrays_unchanged_witness:
  "unchanged [Image8 [[(1, 2, 3)]], ImageF [[(0, 0, 0)]], HeatmapPair strong_text_and_link]
     (snd (getBoxes_st cv_rect (7/10) (4/10) (4/10) 10
        [Image8 [[(1, 2, 3)]], ImageF [[(0, 0, 0)]], HeatmapPair strong_text_and_link] [2])) \<and>
   unchanged [Image8 [[(1, 2, 3)]], ImageF [[(0, 0, 0)]], HeatmapPair strong_text_and_link]
     (snd (compute_input_st (\<lambda>v. v) (\<lambda>v. v)
        [Image8 [[(1, 2, 3)]], ImageF [[(0, 0, 0)]], HeatmapPair strong_text_and_link] 0)) \<and>
   unchanged [Image8 [[(1, 2, 3)]], ImageF [[(0, 0, 0)]], HeatmapPair strong_text_and_link]
     (snd (invert_input_st (\<lambda>v. v) (\<lambda>v. v)
        [Image8 [[(1, 2, 3)]], ImageF [[(0, 0, 0)]], HeatmapPair strong_text_and_link] 1))"
  by (rule calls_leave_arrays_unchanged)

end
